theory Spec2Isabelle
  imports Main
begin

section \<open>The Irony compiler and virtual machine (src/pathos/irony.py)\<close>

text \<open>
  The development embeds the three stages of \<^verbatim>\<open>irony.py\<close>: the line parser
  (\<^verbatim>\<open>parse\<close>), the code generator (\<^verbatim>\<open>compile_expr\<close>, \<^verbatim>\<open>compile_stmt\<close>,
  \<^verbatim>\<open>compile_fn\<close>, \<^verbatim>\<open>compile_all\<close>) and the virtual machine
  (\<^verbatim>\<open>VirtualHardware\<close>). Source and assembly are text, so both are modelled as
  \<open>string\<close>, and the Python string methods the program calls are modelled first.

  Conventions.
  \<^item> Text is ASCII: a \<open>char\<close> is one byte, and the classes of characters
    (\<^verbatim>\<open>isspace\<close>, \<^verbatim>\<open>isdigit\<close>, \<^verbatim>\<open>\w\<close>) are the ASCII parts of Python's.
  \<^item> Python integers are unbounded: \<open>int\<close>. Counters and addresses that only grow
    from zero are \<open>nat\<close>.
  \<^item> An exception that the program raises, or that the interpreter raises for it, is
    a value of type \<open>error\<close>; a function that can raise returns \<open>error + 'a\<close>.
  \<^item> The \<^verbatim>\<open>debug\<close> branches of the machine only write a trace to standard output
    and touch no field of the machine; they are left out.
  \<^item> Limits of the interpreter itself (recursion depth, memory, the length limit of
    \<^verbatim>\<open>int\<close>/\<^verbatim>\<open>str\<close> conversions) are outside the model.
\<close>

subsection \<open>Exceptions\<close>

datatype error =
    SyntaxError string   \<comment> \<open>raised by \<^verbatim>\<open>parse\<close>, with its message\<close>
  | ValueError string    \<comment> \<open>tuple unpacking of a split of the wrong length, \<^verbatim>\<open>int()\<close>\<close>
  | IndexError string    \<comment> \<open>list index, list assignment index, pop from empty list\<close>
  | KeyError string      \<comment> \<open>a label missing from \<^verbatim>\<open>labels\<close>, with the key\<close>
  | RuntimeError string  \<comment> \<open>stack overflow and underflow, with the message\<close>
  | TypeError string     \<comment> \<open>a list indexed by \<^verbatim>\<open>None\<close>\<close>

definition too_many :: error where
  "too_many = ValueError ''too many values to unpack (expected 2)''"

definition not_enough :: error where
  "not_enough = ValueError ''not enough values to unpack (expected 2, got 1)''"

definition index_range :: error where
  "index_range = IndexError ''list index out of range''"

definition assign_range :: error where
  "assign_range = IndexError ''list assignment index out of range''"

definition pop_empty :: error where
  "pop_empty = IndexError ''pop from empty list''"

subsection \<open>Python string primitives\<close>

definition ord :: "char \<Rightarrow> nat" where
  "ord c = of_char c"

text \<open>\<^verbatim>\<open>str.isspace\<close> on ASCII: tab to carriage return, the four separators, space.\<close>

definition is_space :: "char \<Rightarrow> bool" where
  "is_space c = (let n = ord c in (9 \<le> n \<and> n \<le> 13) \<or> (28 \<le> n \<and> n \<le> 32))"

definition is_digit :: "char \<Rightarrow> bool" where
  "is_digit c = (let n = ord c in 48 \<le> n \<and> n \<le> 57)"

text \<open>The class \<^verbatim>\<open>\w\<close> of the regular expressions: letters, digits, underscore.\<close>

definition is_word_char :: "char \<Rightarrow> bool" where
  "is_word_char c = (let n = ord c in
     (48 \<le> n \<and> n \<le> 57) \<or> (65 \<le> n \<and> n \<le> 90) \<or> n = 95 \<or> (97 \<le> n \<and> n \<le> 122))"

text \<open>\<^verbatim>\<open>s.strip()\<close>\<close>

definition strip :: "string \<Rightarrow> string" where
  "strip s = rev (dropWhile is_space (rev (dropWhile is_space s)))"

text \<open>\<^verbatim>\<open>s.split()\<close>: the maximal runs of non-whitespace characters.\<close>

fun split_ws_acc :: "string \<Rightarrow> string \<Rightarrow> string list" where
  "split_ws_acc w [] = (if w = [] then [] else [w])"
| "split_ws_acc w (c # cs) =
     (if is_space c then (if w = [] then split_ws_acc [] cs else w # split_ws_acc [] cs)
      else split_ws_acc (w @ [c]) cs)"

definition split_ws :: "string \<Rightarrow> string list" where
  "split_ws s = split_ws_acc [] s"

text \<open>\<^verbatim>\<open>s.split(c)\<close> for a separator of one character: always at least one piece.\<close>

fun split_on :: "char \<Rightarrow> string \<Rightarrow> string list" where
  "split_on sep [] = [[]]"
| "split_on sep (c # cs) =
     (if c = sep then [] # split_on sep cs
      else (case split_on sep cs of p # ps \<Rightarrow> (c # p) # ps | [] \<Rightarrow> [[c]]))"

text \<open>\<^verbatim>\<open>" ".join(ws)\<close>\<close>

fun join_sp :: "string list \<Rightarrow> string" where
  "join_sp [] = []"
| "join_sp [w] = w"
| "join_sp (w # ws) = w @ '' '' @ join_sp ws"

text \<open>\<^verbatim>\<open>s.isdigit()\<close>: non-empty and digits only.\<close>

definition isdigit :: "string \<Rightarrow> bool" where
  "isdigit s = (s \<noteq> [] \<and> list_all is_digit s)"

text \<open>\<^verbatim>\<open>int(s)\<close> for a string of digits, and \<^verbatim>\<open>str(n)\<close>.\<close>

definition int_of_digits :: "string \<Rightarrow> nat" where
  "int_of_digits s = foldl (\<lambda>a c. 10 * a + (ord c - 48)) 0 s"

fun str_nat :: "nat \<Rightarrow> string" where
  "str_nat n =
     (if n < 10 then [''0123456789'' ! n]
      else str_nat (n div 10) @ [''0123456789'' ! (n mod 10)])"

declare str_nat.simps [simp del]

definition str_int :: "int \<Rightarrow> string" where
  "str_int i = (if i < 0 then CHR ''-'' # str_nat (nat (- i)) else str_nat (nat i))"

text \<open>\<^verbatim>\<open>s.startswith(p)\<close>\<close>

definition startswith :: "string \<Rightarrow> string \<Rightarrow> bool" where
  "startswith s p = (take (length p) s = p)"

subsection \<open>The abstract syntax tree\<close>

text \<open>
  A node is a Python dictionary with a \<^verbatim>\<open>"type"\<close> field; the six types are the
  constructors. Expressions and conditions stay text until code generation.
\<close>

datatype stmt =
    Def string string "stmt list"          \<comment> \<open>name, arg, body\<close>
  | If string "stmt list"                  \<comment> \<open>cond, body\<close>
  | For string string string "stmt list"   \<comment> \<open>var, from, to, body\<close>
  | Return string
  | Print string
  | Assign string string                   \<comment> \<open>var, expr\<close>

subsection \<open>The regular expressions of the parser\<close>

text \<open>
  \<^verbatim>\<open>$\<close> matches at the end of the text or before a newline that ends it;
  \<^verbatim>\<open>.\<close> matches any character but the newline. So \<^verbatim>\<open>(.+)$\<close> matches a rest that is a
  non-empty run of characters other than the newline, followed by the end.
\<close>

definition newline :: char where
  "newline = CHR 0x0A"

definition at_end :: "string \<Rightarrow> bool" where
  "at_end r = (r = [] \<or> r = [newline])"

definition match_tail :: "string \<Rightarrow> string option" where
  "match_tail r =
     (let b = takeWhile (\<lambda>c. c \<noteq> newline) r in
      if b \<noteq> [] \<and> at_end (dropWhile (\<lambda>c. c \<noteq> newline) r) then Some b else None)"

text \<open>\<^verbatim>\<open>\s*(.+)$\<close>: the longest run of whitespace after which the rest matches.\<close>

fun match_ws_tail :: "string \<Rightarrow> string option" where
  "match_ws_tail [] = match_tail []"
| "match_ws_tail (c # cs) =
     (if is_space c then
        (case match_ws_tail cs of Some t \<Rightarrow> Some t | None \<Rightarrow> match_tail (c # cs))
      else match_tail (c # cs))"

text \<open>\<^verbatim>\<open>^def (\w+) (\w+)$\<close>\<close>

definition match_def :: "string \<Rightarrow> (string \<times> string) option" where
  "match_def line =
     (if startswith line ''def '' then
        (let r = drop 4 line;
             name = takeWhile is_word_char r;
             r1 = dropWhile is_word_char r;
             arg = takeWhile is_word_char (drop 1 r1)
         in if name \<noteq> [] \<and> startswith r1 '' '' \<and> arg \<noteq> [] \<and>
               at_end (dropWhile is_word_char (drop 1 r1))
            then Some (name, arg) else None)
      else None)"

text \<open>\<^verbatim>\<open>^if (.+)$\<close>, \<^verbatim>\<open>^return (.+)$\<close>, \<^verbatim>\<open>^print (.+)$\<close>\<close>

definition match_kw :: "string \<Rightarrow> string \<Rightarrow> string option" where
  "match_kw kw line =
     (if startswith line (kw @ '' '') then match_tail (drop (length kw + 1) line) else None)"

text \<open>
  \<^verbatim>\<open>(.+) to (.+)$\<close>: the first group is greedy, so of all the places where
  \<^verbatim>\<open> to \<close> stands after a non-empty prefix and before a matching rest, the last one
  is taken. The first argument is the prefix read so far.
\<close>

fun find_to :: "string \<Rightarrow> string \<Rightarrow> (string \<times> string) option" where
  "find_to pre [] = None"
| "find_to pre (c # cs) =
     (if c = newline then None
      else (case find_to (pre @ [c]) cs of
              Some r \<Rightarrow> Some r
            | None \<Rightarrow>
                (if pre \<noteq> [] \<and> startswith (c # cs) '' to '' then
                   (case match_tail (drop 4 (c # cs)) of
                      Some t \<Rightarrow> Some (pre, t)
                    | None \<Rightarrow> None)
                 else None)))"

text \<open>\<^verbatim>\<open>^for (\w+) from (.+) to (.+)$\<close>\<close>

definition match_for :: "string \<Rightarrow> (string \<times> string \<times> string) option" where
  "match_for line =
     (if startswith line ''for '' then
        (let r = drop 4 line;
             var = takeWhile is_word_char r;
             r1 = dropWhile is_word_char r
         in if var \<noteq> [] \<and> startswith r1 '' from '' then
              (case find_to [] (drop 6 r1) of
                 Some (f, t) \<Rightarrow> Some (var, f, t)
               | None \<Rightarrow> None)
            else None)
      else None)"

text \<open>\<^verbatim>\<open>^(\w+)\s*=\s*(.+)$\<close>\<close>

definition match_assign :: "string \<Rightarrow> (string \<times> string) option" where
  "match_assign line =
     (let var = takeWhile is_word_char line;
          r1 = dropWhile is_space (dropWhile is_word_char line)
      in if var \<noteq> [] \<and> startswith r1 ''='' then
           (case match_ws_tail (drop 1 r1) of
              Some e \<Rightarrow> Some (var, e)
            | None \<Rightarrow> None)
         else None)"

subsection \<open>The parser\<close>

text \<open>
  \<^verbatim>\<open>parse\<close> keeps a Python list \<^verbatim>\<open>stack\<close> of the body lists that are open: the
  list \<^verbatim>\<open>ast\<close> at the bottom, and above it the \<^verbatim>\<open>body\<close> of every block that has been
  opened and not closed. Each of these bodies is, by aliasing, the body of the last node
  of the list below it. The model keeps the same information without aliasing:
  \<open>root\<close> is \<^verbatim>\<open>ast\<close> without its open last node, \<open>opened\<close> lists the open blocks,
  innermost first, each with its header and the body it has so far, and \<open>popped\<close>
  says that \<^verbatim>\<open>ast\<close> itself has been popped, that is, that \<^verbatim>\<open>stack\<close> is empty.
  \<open>function_names\<close> is the global set the parser adds to.
\<close>

datatype opener = ODef string string | OIf string | OFor string string string

fun close_block :: "opener \<Rightarrow> stmt list \<Rightarrow> stmt" where
  "close_block (ODef n a) b = Def n a b"
| "close_block (OIf c) b = If c b"
| "close_block (OFor v f t) b = For v f t b"

record pstate =
  root :: "stmt list"
  opened :: "(opener \<times> stmt list) list"
  popped :: bool
  function_names :: "string set"

text \<open>\<^verbatim>\<open>stack[-1].append(node)\<close>\<close>

definition append_node :: "stmt \<Rightarrow> pstate \<Rightarrow> error + pstate" where
  "append_node node s =
     (if popped s then Inl index_range
      else (case opened s of
              [] \<Rightarrow> Inr (s\<lparr>root := root s @ [node]\<rparr>)
            | (h, b) # fs \<Rightarrow> Inr (s\<lparr>opened := (h, b @ [node]) # fs\<rparr>)))"

text \<open>\<^verbatim>\<open>stack[-1].append(node); stack.append(node["body"])\<close>\<close>

definition open_block :: "opener \<Rightarrow> pstate \<Rightarrow> error + pstate" where
  "open_block h s =
     (if popped s then Inl index_range
      else Inr (s\<lparr>opened := (h, []) # opened s\<rparr>))"

text \<open>\<^verbatim>\<open>stack.pop()\<close>\<close>

definition pop_block :: "pstate \<Rightarrow> error + pstate" where
  "pop_block s =
     (if popped s then Inl pop_empty
      else (case opened s of
              [] \<Rightarrow> Inr (s\<lparr>popped := True\<rparr>)
            | [(h, b)] \<Rightarrow> Inr (s\<lparr>root := root s @ [close_block h b], opened := []\<rparr>)
            | (h, b) # (h', b') # fs \<Rightarrow>
                Inr (s\<lparr>opened := (h', b' @ [close_block h b]) # fs\<rparr>)))"

text \<open>One turn of the loop over the lines: the chain of \<^verbatim>\<open>if\<close>/\<^verbatim>\<open>elif\<close>.\<close>

definition parse_line :: "string \<Rightarrow> pstate \<Rightarrow> error + pstate" where
  "parse_line line s =
     (case match_def line of
        Some (name, arg) \<Rightarrow>
          open_block (ODef name arg) (s\<lparr>function_names := insert name (function_names s)\<rparr>)
      | None \<Rightarrow>
     (case match_kw ''if'' line of
        Some cond \<Rightarrow> open_block (OIf cond) s
      | None \<Rightarrow>
     (case match_for line of
        Some (var, f, t) \<Rightarrow> open_block (OFor var f t) s
      | None \<Rightarrow>
     (case match_kw ''return'' line of
        Some e \<Rightarrow> append_node (Return e) s
      | None \<Rightarrow>
     (case match_kw ''print'' line of
        Some e \<Rightarrow> append_node (Print e) s
      | None \<Rightarrow>
     (case match_assign line of
        Some (var, e) \<Rightarrow> append_node (Assign var e) s
      | None \<Rightarrow>
     (if line = ''end'' then pop_block s
      else Inl (SyntaxError (''Unknown line: '' @ line)))))))))"

fun parse_lines :: "string list \<Rightarrow> pstate \<Rightarrow> error + pstate" where
  "parse_lines [] s = Inr s"
| "parse_lines (l # ls) s =
     (case parse_line l s of Inl e \<Rightarrow> Inl e | Inr s' \<Rightarrow> parse_lines ls s')"

text \<open>
  The value of \<^verbatim>\<open>ast\<close> when the loop ends: every block still open is the last node of
  the body below it, with the body it has absorbed.
\<close>

fun close_all :: "(opener \<times> stmt list) list \<Rightarrow> stmt list \<Rightarrow> stmt list" where
  "close_all [] r = r"
| "close_all [(h, b)] r = r @ [close_block h b]"
| "close_all ((h, b) # (h', b') # fs) r = close_all ((h', b' @ [close_block h b]) # fs) r"

text \<open>The comprehension that strips the lines and drops the blank ones and the comments.\<close>

definition source_lines :: "string list \<Rightarrow> string list" where
  "source_lines ls =
     map strip (filter (\<lambda>l. strip l \<noteq> [] \<and> \<not> startswith (strip l) ''#'') ls)"

text \<open>
  \<^verbatim>\<open>parse(lines)\<close>, from a given value of the global \<^verbatim>\<open>function_names\<close>: the tree and
  the new value of the global.
\<close>

definition parse :: "string list \<Rightarrow> string set \<Rightarrow> error + (stmt list \<times> string set)" where
  "parse ls fnames =
     (case parse_lines (source_lines ls)
             \<lparr>root = [], opened = [], popped = False, function_names = fnames\<rparr> of
        Inl e \<Rightarrow> Inl e
      | Inr s \<Rightarrow> Inr (close_all (opened s) (root s), function_names s))"

subsection \<open>The code generator\<close>

text \<open>
  \<^verbatim>\<open>temp()\<close> increments the global \<^verbatim>\<open>counter\<close> and names a temporary after its new
  value. The counter is threaded through the generator: every function takes the value
  before and returns the value after.
\<close>

definition temp :: "nat \<Rightarrow> string \<times> nat" where
  "temp counter = (''tmp'' @ str_nat (counter + 1), counter + 1)"

text \<open>\<^verbatim>\<open>a, b = pieces\<close>: a list of any other length than two raises.\<close>

fun unpack2 :: "'a list \<Rightarrow> error + ('a \<times> 'a)" where
  "unpack2 [a, b] = Inr (a, b)"
| "unpack2 [] = Inl (ValueError ''not enough values to unpack (expected 2, got 0)'')"
| "unpack2 [a] = Inl not_enough"
| "unpack2 (a # b # c # r) = Inl too_many"

text \<open>The pieces of text get shorter: what makes \<^verbatim>\<open>compile_expr\<close> terminate.\<close>

lemma length_strip: "length (strip s) \<le> length s"
proof -
  have "length (strip s) \<le> length (dropWhile is_space s)"
    unfolding strip_def using length_dropWhile_le [of is_space "rev (dropWhile is_space s)"]
    by simp
  also have "\<dots> \<le> length s"
    by (rule length_dropWhile_le)
  finally show ?thesis .
qed

lemma split_on_not_Nil: "split_on sep s \<noteq> []"
  by (induction s) (auto split: list.splits)

lemma split_on_size:
  "sum_list (map length (split_on sep s)) + length (split_on sep s) = Suc (length s)"
proof (induction s)
  case Nil
  show ?case by simp
next
  case (Cons c cs)
  show ?case
  proof (cases "split_on sep cs")
    case Nil
    with split_on_not_Nil show ?thesis by blast
  next
    case (Cons p ps)
    with Cons.IH show ?thesis by simp
  qed
qed

lemma split_on_two:
  assumes "split_on sep s = [a, b]"
  shows "length a < length s" and "length b < length s"
  using split_on_size [of sep s] assms by simp_all

lemma split_ws_acc_size:
  "sum_list (map length (split_ws_acc w s)) + length (split_ws_acc w s)
     \<le> Suc (length w + length s)"
proof (induction s arbitrary: w)
  case Nil
  show ?case by simp
next
  case (Cons c cs)
  from Cons.IH [of "[]"] Cons.IH [of "w @ [c]"] show ?case by simp
qed

lemma split_ws_acc_nonempty: "u \<in> set (split_ws_acc w s) \<Longrightarrow> u \<noteq> []"
proof (induction s arbitrary: w)
  case Nil
  then show ?case by (auto split: if_splits)
next
  case (Cons c cs)
  from Cons.prems Cons.IH [of "[]"] Cons.IH [of "w @ [c]"] show ?case
    by (auto split: if_splits)
qed

lemma length_join_sp: "ws \<noteq> [] \<Longrightarrow> Suc (length (join_sp ws)) = sum_list (map length ws) + length ws"
  by (induction ws rule: join_sp.induct) simp_all

lemma join_tl_words_shorter:
  assumes "2 \<le> length (split_ws s)"
  shows "length (join_sp (tl (split_ws s))) < length s"
proof -
  from assms obtain h t where ws: "split_ws s = h # t" and t: "t \<noteq> []"
    by (cases "split_ws s"; cases "tl (split_ws s)") auto
  from ws have "h \<in> set (split_ws_acc [] s)"
    by (simp add: split_ws_def)
  then have h: "h \<noteq> []"
    by (rule split_ws_acc_nonempty)
  from split_ws_acc_size [of "[]" s] ws
  have "length h + sum_list (map length t) + Suc (length t) \<le> Suc (length s)"
    by (simp add: split_ws_def)
  moreover from t have "Suc (length (join_sp t)) = sum_list (map length t) + length t"
    by (rule length_join_sp)
  moreover from h have "0 < length h" by simp
  ultimately show ?thesis using ws by simp
qed

lemma call_arg_shorter:
  assumes "2 \<le> length (split_ws (strip e))"
  shows "length (join_sp (tl (split_ws (strip e)))) < length e"
  using join_tl_words_shorter [OF assms] length_strip [of e] by simp

lemma unpack2_Inr: "unpack2 xs = Inr (a, b) \<Longrightarrow> xs = [a, b]"
  by (erule unpack2.elims) simp_all

lemma split_arg_shorter:
  assumes "unpack2 (split_on sep (strip e)) = Inr (a, b)"
  shows "length (strip a) < length e" and "length (strip b) < length e"
proof -
  from assms have two: "split_on sep (strip e) = [a, b]"
    by (rule unpack2_Inr)
  have "length (strip a) \<le> length a" and "length (strip b) \<le> length b"
    by (rule length_strip)+
  moreover from two have "length a < length (strip e)" and "length b < length (strip e)"
    by (rule split_on_two)+
  moreover have "length (strip e) \<le> length e"
    by (rule length_strip)
  ultimately show "length (strip a) < length e" and "length (strip b) < length e"
    by simp_all
qed

text \<open>
  \<^verbatim>\<open>compile_expr(expr)\<close>, from the set \<^verbatim>\<open>function_names\<close> and the counter: the
  location of the value, the instructions that compute it, and the counter after.
\<close>

function compile_expr ::
  "string set \<Rightarrow> nat \<Rightarrow> string \<Rightarrow> error + (string \<times> string list \<times> nat)" where
  "compile_expr fnames counter expr0 =
     (let expr = strip expr0; words = split_ws expr in
      if 2 \<le> length words \<and> hd words \<in> fnames then
        (case compile_expr fnames counter (join_sp (tl words)) of
           Inl e \<Rightarrow> Inl e
         | Inr (arg_tmp, arg_code, c1) \<Rightarrow>
             (let (tmp, c2) = temp c1 in
              Inr (tmp,
                   arg_code @ [''PUSH '' @ arg_tmp, ''CALL '' @ hd words, ''MOV _retval '' @ tmp],
                   c2)))
      else if CHR ''+'' \<in> set expr then
        (case unpack2 (split_on CHR ''+'' expr) of
           Inl e \<Rightarrow> Inl e
         | Inr (a, b) \<Rightarrow>
             (case compile_expr fnames counter (strip a) of
                Inl e \<Rightarrow> Inl e
              | Inr (ta, ca, c1) \<Rightarrow>
                  (case compile_expr fnames c1 (strip b) of
                     Inl e \<Rightarrow> Inl e
                   | Inr (tb, cb, c2) \<Rightarrow>
                       (let (t, c3) = temp c2 in
                        Inr (t, ca @ cb @ [''ADD '' @ ta @ '' '' @ tb @ '' '' @ t], c3)))))
      else if CHR ''-'' \<in> set expr then
        (case unpack2 (split_on CHR ''-'' expr) of
           Inl e \<Rightarrow> Inl e
         | Inr (a, b) \<Rightarrow>
             (case compile_expr fnames counter (strip a) of
                Inl e \<Rightarrow> Inl e
              | Inr (ta, ca, c1) \<Rightarrow>
                  (case compile_expr fnames c1 (strip b) of
                     Inl e \<Rightarrow> Inl e
                   | Inr (tb, cb, c2) \<Rightarrow>
                       (let (t, c3) = temp c2 in
                        Inr (t, ca @ cb @ [''SUB '' @ ta @ '' '' @ tb @ '' '' @ t], c3)))))
      else Inr (expr, [], counter))"
  by pat_completeness auto
termination
  by (relation "measure (\<lambda>(fnames, counter, expr0). length expr0)")
     (auto simp: call_arg_shorter split_arg_shorter)

declare compile_expr.simps [simp del]

text \<open>
  \<^verbatim>\<open>compile_stmt(stmt, output)\<close> appends to the list \<^verbatim>\<open>output\<close>; the model returns
  what it appends. A node of type \<^verbatim>\<open>def\<close> matches no branch and appends nothing.
  \<open>compile_stmts\<close> is the loop \<^verbatim>\<open>for s in stmt["body"]: compile_stmt(s, output)\<close>.
\<close>

fun compile_stmt :: "string set \<Rightarrow> nat \<Rightarrow> stmt \<Rightarrow> error + (string list \<times> nat)"
  and compile_stmts :: "string set \<Rightarrow> nat \<Rightarrow> stmt list \<Rightarrow> error + (string list \<times> nat)" where
  "compile_stmt fnames counter (Assign var expr) =
     (case compile_expr fnames counter expr of
        Inl e \<Rightarrow> Inl e
      | Inr (t, code, c1) \<Rightarrow> Inr (code @ [''MOV '' @ t @ '' '' @ var], c1))"
| "compile_stmt fnames counter (Return expr) =
     (case compile_expr fnames counter expr of
        Inl e \<Rightarrow> Inl e
      | Inr (t, code, c1) \<Rightarrow> Inr (code @ [''RET '' @ t], c1))"
| "compile_stmt fnames counter (If cond body) =
     (case unpack2 (split_on CHR ''<'' cond) of
        Inl e \<Rightarrow> Inl e
      | Inr (left, right) \<Rightarrow>
          (case compile_expr fnames counter (strip left) of
             Inl e \<Rightarrow> Inl e
           | Inr (t, code, c1) \<Rightarrow>
               (case compile_stmts fnames (snd (temp c1)) body of
                  Inl e \<Rightarrow> Inl e
                | Inr (body_code, c3) \<Rightarrow>
                    Inr (code @ [''JGE '' @ t @ '' 2 '' @ fst (temp c1) @ ''_end'']
                           @ body_code @ [''LABEL '' @ fst (temp c1) @ ''_end''], c3))))"
| "compile_stmt fnames counter (For var from to body) =
     (case compile_expr fnames counter from of
        Inl e \<Rightarrow> Inl e
      | Inr (start_tmp, start_code, c1) \<Rightarrow>
          (case compile_expr fnames c1 to of
             Inl e \<Rightarrow> Inl e
           | Inr (end_tmp, end_code, c2) \<Rightarrow>
               (let loop_label = fst (temp c2); c3 = snd (temp c2);
                    end_label = fst (temp c3); c4 = snd (temp c3);
                    end_var = fst (temp c4); c5 = snd (temp c4)
                in case compile_stmts fnames c5 body of
                     Inl e \<Rightarrow> Inl e
                   | Inr (body_code, c6) \<Rightarrow>
                       (let inc_tmp = fst (temp c6); c7 = snd (temp c6)
                        in Inr (start_code @ [''MOV '' @ start_tmp @ '' '' @ var]
                                @ end_code @ [''MOV '' @ end_tmp @ '' '' @ end_var]
                                @ [''LABEL '' @ loop_label @ ''_start'']
                                @ [''JGT '' @ var @ '' '' @ end_var @ '' '' @ end_label @ ''_end'']
                                @ body_code
                                @ [''ADD '' @ var @ '' 1 '' @ inc_tmp]
                                @ [''MOV '' @ inc_tmp @ '' '' @ var]
                                @ [''JMP '' @ loop_label @ ''_start'']
                                @ [''LABEL '' @ end_label @ ''_end''], c7)))))"
| "compile_stmt fnames counter (Print expr) =
     (case compile_expr fnames counter expr of
        Inl e \<Rightarrow> Inl e
      | Inr (t, code, c1) \<Rightarrow> Inr (code @ [''PRINT '' @ t], c1))"
| "compile_stmt fnames counter (Def name arg body) = Inr ([], counter)"
| "compile_stmts fnames counter [] = Inr ([], counter)"
| "compile_stmts fnames counter (s # ss) =
     (case compile_stmt fnames counter s of
        Inl e \<Rightarrow> Inl e
      | Inr (code, c1) \<Rightarrow>
          (case compile_stmts fnames c1 ss of
             Inl e \<Rightarrow> Inl e
           | Inr (code', c2) \<Rightarrow> Inr (code @ code', c2)))"

text \<open>\<^verbatim>\<open>compile_fn(fn)\<close>, for the node \<^verbatim>\<open>fn\<close> with the given name, arg and body.\<close>

definition compile_fn ::
  "string set \<Rightarrow> nat \<Rightarrow> string \<Rightarrow> string \<Rightarrow> stmt list \<Rightarrow> error + (string list \<times> nat)" where
  "compile_fn fnames counter name arg body =
     (case compile_stmts fnames counter body of
        Inl e \<Rightarrow> Inl e
      | Inr (code, c1) \<Rightarrow> Inr ([''LABEL '' @ name, ''PARAM '' @ arg] @ code, c1))"

text \<open>
  The loop of \<^verbatim>\<open>compile_all\<close> over the items of the tree. Its state is the two lists
  \<^verbatim>\<open>code\<close> and \<^verbatim>\<open>main_code\<close> and the counter. An item that is not a \<^verbatim>\<open>def\<close> is
  compiled when its type is \<^verbatim>\<open>assign\<close>, \<^verbatim>\<open>print\<close> or \<^verbatim>\<open>for\<close>; for the other
  types no branch is taken.
\<close>

fun compile_items ::
  "string set \<Rightarrow> stmt list \<Rightarrow> string list \<times> string list \<times> nat
     \<Rightarrow> error + (string list \<times> string list \<times> nat)" where
  "compile_items fnames [] st = Inr st"
| "compile_items fnames (Def name arg body # items) (code, main_code, counter) =
     (case compile_fn fnames counter name arg body of
        Inl e \<Rightarrow> Inl e
      | Inr (out, c1) \<Rightarrow> compile_items fnames items (code @ out, main_code, c1))"
| "compile_items fnames (Assign var expr # items) (code, main_code, counter) =
     (case compile_stmt fnames counter (Assign var expr) of
        Inl e \<Rightarrow> Inl e
      | Inr (out, c1) \<Rightarrow> compile_items fnames items (code, main_code @ out, c1))"
| "compile_items fnames (Print expr # items) (code, main_code, counter) =
     (case compile_stmt fnames counter (Print expr) of
        Inl e \<Rightarrow> Inl e
      | Inr (out, c1) \<Rightarrow> compile_items fnames items (code, main_code @ out, c1))"
| "compile_items fnames (For var from to body # items) (code, main_code, counter) =
     (case compile_stmt fnames counter (For var from to body) of
        Inl e \<Rightarrow> Inl e
      | Inr (out, c1) \<Rightarrow> compile_items fnames items (code, main_code @ out, c1))"
| "compile_items fnames (If cond body # items) st = compile_items fnames items st"
| "compile_items fnames (Return expr # items) st = compile_items fnames items st"

definition compile_all :: "string set \<Rightarrow> nat \<Rightarrow> stmt list \<Rightarrow> error + (string list \<times> nat)" where
  "compile_all fnames counter ast =
     (case compile_items fnames ast ([], [], counter) of
        Inl e \<Rightarrow> Inl e
      | Inr (code, main_code, c1) \<Rightarrow>
          Inr ([''JMP main''] @ code @ [''LABEL main''] @ main_code @ [''HALT''], c1))"

text \<open>
  \<^verbatim>\<open>compile(source)\<close> resets the two globals, parses and compiles; it returns the
  assembly.
\<close>

definition compile :: "string list \<Rightarrow> error + string list" where
  "compile source =
     (case parse source {} of
        Inl e \<Rightarrow> Inl e
      | Inr (ast, fnames) \<Rightarrow>
          (case compile_all fnames 0 ast of
             Inl e \<Rightarrow> Inl e
           | Inr (assembly, c) \<Rightarrow> Inr assembly))"

subsection \<open>The virtual machine\<close>

text \<open>
  A scope and the table of labels are Python dictionaries from names to numbers: lists
  of pairs in the order of insertion, each key once. The scope stack is a Python list:
  index 0 comes first and the current scope \<^verbatim>\<open>scope_stack[-1]\<close> is the last element.
  The stack pointer starts at 0, goes up by one after a check against the size and down
  by one after a check against 0: it is a \<open>nat\<close>. The program counter can be set
  from a value popped off the stack, so it is an \<open>int\<close>.
\<close>

type_synonym dict = "(string \<times> nat) list"

fun dict_set :: "string \<Rightarrow> nat \<Rightarrow> dict \<Rightarrow> dict" where
  "dict_set k v [] = [(k, v)]"
| "dict_set k v ((k', v') # d) = (if k = k' then (k, v) # d else (k', v') # dict_set k v d)"

record vm =
  memory :: "int list"
  registers :: "int list"
  stack :: "int list"
  pc :: int
  sp :: nat
  bp :: nat
  labels :: dict
  next_mem_addr :: nat
  scope_stack :: "dict list"
  program :: "string list"
  output_lines :: "string list"   \<comment> \<open>the field \<^verbatim>\<open>output\<close>\<close>

text \<open>\<^verbatim>\<open>VirtualHardware.__init__(self, memory_size=512, stack_size=16)\<close>\<close>

definition VirtualHardware :: "nat \<Rightarrow> nat \<Rightarrow> vm" where
  "VirtualHardware memory_size stack_size =
     \<lparr>memory = replicate memory_size 0,
      registers = replicate 16 0,
      stack = replicate stack_size 0,
      pc = 0, sp = 0, bp = 0,
      labels = [],
      next_mem_addr = 0,
      scope_stack = [[]],
      program = [],
      output_lines = []\<rparr>"

text \<open>Sequencing of steps that can raise.\<close>

definition sum_bind :: "error + 'a \<Rightarrow> ('a \<Rightarrow> error + 'b) \<Rightarrow> error + 'b" where
  "sum_bind m f = (case m of Inl e \<Rightarrow> Inl e | Inr x \<Rightarrow> f x)"

text \<open>\<^verbatim>\<open>xs[i]\<close> for an index that is not negative, and for any integer.\<close>

definition list_get :: "'a list \<Rightarrow> nat \<Rightarrow> error + 'a" where
  "list_get xs i = (if i < length xs then Inr (xs ! i) else Inl index_range)"

definition py_index :: "'a list \<Rightarrow> int \<Rightarrow> error + 'a" where
  "py_index xs i =
     (if 0 \<le> i then list_get xs (nat i)
      else if - int (length xs) \<le> i then Inr (xs ! nat (int (length xs) + i))
      else Inl index_range)"

text \<open>\<^verbatim>\<open>xs[i] = v\<close> for an index that is not negative.\<close>

definition list_set :: "'a list \<Rightarrow> nat \<Rightarrow> 'a \<Rightarrow> error + 'a list" where
  "list_set xs i v = (if i < length xs then Inr (xs[i := v]) else Inl assign_range)"

text \<open>
  \<^verbatim>\<open>load_program\<close>: the first pass records the index of every line that starts with
  \<^verbatim>\<open>LABEL \<close> under the second word of the line.
\<close>

fun build_labels :: "nat \<Rightarrow> string list \<Rightarrow> dict \<Rightarrow> error + dict" where
  "build_labels i [] d = Inr d"
| "build_labels i (line # code) d =
     (if startswith line ''LABEL '' then
        (case list_get (split_ws line) 1 of
           Inl e \<Rightarrow> Inl e
         | Inr label_name \<Rightarrow> build_labels (i + 1) code (dict_set label_name i d))
      else build_labels (i + 1) code d)"

definition load_program :: "vm \<Rightarrow> string list \<Rightarrow> error + vm" where
  "load_program s code =
     (case build_labels 0 code [] of
        Inl e \<Rightarrow> Inl e
      | Inr d \<Rightarrow> Inr (s\<lparr>program := code, labels := d\<rparr>))"

definition is_temp_var :: "string \<Rightarrow> bool" where
  "is_temp_var var_name = (startswith var_name ''tmp'' \<and> isdigit (drop 3 var_name))"

text \<open>Called on temporaries only: the branch that returns \<^verbatim>\<open>None\<close> is not reached.\<close>

definition get_temp_register :: "string \<Rightarrow> nat" where
  "get_temp_register var_name = int_of_digits (drop 3 var_name) mod 16"

text \<open>
  \<^verbatim>\<open>get_var_addr\<close>: \<^verbatim>\<open>None\<close> for a temporary; else the address of the name in the
  current scope, which is bound to the next free address if it has none.
\<close>

definition get_var_addr :: "vm \<Rightarrow> string \<Rightarrow> error + (nat option \<times> vm)" where
  "get_var_addr s var_name =
     (if is_temp_var var_name then Inr (None, s)
      else if scope_stack s = [] then Inl index_range
      else (let current_scope = last (scope_stack s) in
            case map_of current_scope var_name of
              Some addr \<Rightarrow> Inr (Some addr, s)
            | None \<Rightarrow>
                (let addr = next_mem_addr s in
                 Inr (Some addr,
                      s\<lparr>next_mem_addr := addr + 1,
                        scope_stack := butlast (scope_stack s) @ [current_scope @ [(var_name, addr)]]\<rparr>))))"

text \<open>\<^verbatim>\<open>int(arg)\<close> where \<^verbatim>\<open>arg\<close> is digits, or a minus sign and digits.\<close>

definition int_literal :: "string \<Rightarrow> int" where
  "int_literal arg =
     (if startswith arg ''-'' then - int (int_of_digits (drop 1 arg)) else int (int_of_digits arg))"

definition eval_arg :: "vm \<Rightarrow> string \<Rightarrow> error + (int \<times> vm)" where
  "eval_arg s arg =
     (if isdigit arg \<or> (startswith arg ''-'' \<and> isdigit (drop 1 arg)) then Inr (int_literal arg, s)
      else if is_temp_var arg then
        sum_bind (list_get (registers s) (get_temp_register arg)) (\<lambda>v. Inr (v, s))
      else
        sum_bind (get_var_addr s arg) (\<lambda>(addr, s1).
          case addr of
            None \<Rightarrow> Inl (TypeError ''list indices must be integers or slices, not NoneType'')
          | Some a \<Rightarrow> sum_bind (list_get (memory s1) a) (\<lambda>v. Inr (v, s1))))"

definition set_var :: "vm \<Rightarrow> string \<Rightarrow> int \<Rightarrow> error + vm" where
  "set_var s var_name v =
     (if is_temp_var var_name then
        sum_bind (list_set (registers s) (get_temp_register var_name) v)
          (\<lambda>rs. Inr (s\<lparr>registers := rs\<rparr>))
      else
        sum_bind (get_var_addr s var_name) (\<lambda>(addr, s1).
          case addr of
            None \<Rightarrow> Inl (TypeError ''list indices must be integers or slices, not NoneType'')
          | Some a \<Rightarrow> sum_bind (list_set (memory s1) a v) (\<lambda>m. Inr (s1\<lparr>memory := m\<rparr>))))"

definition push :: "vm \<Rightarrow> int \<Rightarrow> error + vm" where
  "push s v =
     (if length (stack s) \<le> sp s then
        Inl (RuntimeError (''Stack overflow! SP='' @ str_nat (sp s)
                             @ '', stack_size='' @ str_nat (length (stack s))))
      else sum_bind (list_set (stack s) (sp s) v) (\<lambda>st. Inr (s\<lparr>stack := st, sp := sp s + 1\<rparr>)))"

definition pop :: "vm \<Rightarrow> error + (int \<times> vm)" where
  "pop s =
     (if sp s = 0 then Inl (RuntimeError (''Stack underflow! SP='' @ str_nat (sp s)))
      else sum_bind (list_get (stack s) (sp s - 1)) (\<lambda>v. Inr (v, s\<lparr>sp := sp s - 1\<rparr>)))"

text \<open>\<^verbatim>\<open>self.labels[label]\<close>\<close>

definition label_index :: "vm \<Rightarrow> string \<Rightarrow> error + int" where
  "label_index s label =
     (case map_of (labels s) label of None \<Rightarrow> Inl (KeyError label) | Some i \<Rightarrow> Inr (int i))"

text \<open>
  \<^verbatim>\<open>int(text)\<close> for any text without whitespace: an optional sign, then digits, with
  single underscores allowed between digits. The error is given without the text.
\<close>

fun digits_underscores :: "string \<Rightarrow> bool" where
  "digits_underscores [] = False"
| "digits_underscores [c] = is_digit c"
| "digits_underscores (c # d # r) =
     (is_digit c \<and> (if d = CHR ''_'' then digits_underscores r else digits_underscores (d # r)))"

definition py_int :: "string \<Rightarrow> error + int" where
  "py_int text =
     (let body = (if startswith text ''-'' \<or> startswith text ''+'' then drop 1 text else text) in
      if digits_underscores body then
        (let n = int (int_of_digits (filter (\<lambda>c. c \<noteq> CHR ''_'') body)) in
         Inr (if startswith text ''-'' then - n else n))
      else Inl (ValueError ''invalid literal for int() with base 10''))"

text \<open>
  One turn of the loop of \<^verbatim>\<open>run\<close>. A turn ends in \<^verbatim>\<open>continue\<close> or at the bottom of
  the loop body, after \<^verbatim>\<open>self.pc += 1\<close> (both \<open>Continue\<close>, with the new counter set),
  or in \<^verbatim>\<open>break\<close> (\<open>Break\<close>), or it raises.
\<close>

datatype outcome = Continue vm | Break vm

definition advance :: "vm \<Rightarrow> error + outcome" where
  "advance s = Inr (Continue (s\<lparr>pc := pc s + 1\<rparr>))"

definition jump :: "vm \<Rightarrow> string \<Rightarrow> error + outcome" where
  "jump s label = sum_bind (label_index s label) (\<lambda>i. Inr (Continue (s\<lparr>pc := i\<rparr>)))"

text \<open>\<^verbatim>\<open>self.scope_stack.pop()\<close>\<close>

definition pop_scope :: "vm \<Rightarrow> error + vm" where
  "pop_scope s =
     (if scope_stack s = [] then Inl pop_empty
      else Inr (s\<lparr>scope_stack := butlast (scope_stack s)\<rparr>))"

definition exec_instr :: "vm \<Rightarrow> string list \<Rightarrow> error + outcome" where
  "exec_instr s parts =
     sum_bind (list_get parts 0) (\<lambda>op.
       if op = ''LABEL'' then advance s
       else if op = ''JMP'' then
         sum_bind (list_get parts 1) (\<lambda>label. jump s label)
       else if op = ''PARAM'' then
         sum_bind (pop s) (\<lambda>(val, s1).
         sum_bind (list_get parts 1) (\<lambda>var_name.
         sum_bind (set_var s1 var_name val) advance))
       else if op = ''MOV'' then
         sum_bind (list_get parts 1) (\<lambda>src.
         sum_bind (eval_arg s src) (\<lambda>(val, s1).
         sum_bind (list_get parts 2) (\<lambda>dst.
         sum_bind (set_var s1 dst val) advance)))
       else if op = ''ADD'' then
         sum_bind (list_get parts 1) (\<lambda>x.
         sum_bind (eval_arg s x) (\<lambda>(a, s1).
         sum_bind (list_get parts 2) (\<lambda>y.
         sum_bind (eval_arg s1 y) (\<lambda>(b, s2).
         sum_bind (list_get parts 3) (\<lambda>dst.
         sum_bind (set_var s2 dst (a + b)) advance)))))
       else if op = ''SUB'' then
         sum_bind (list_get parts 1) (\<lambda>x.
         sum_bind (eval_arg s x) (\<lambda>(a, s1).
         sum_bind (list_get parts 2) (\<lambda>y.
         sum_bind (eval_arg s1 y) (\<lambda>(b, s2).
         sum_bind (list_get parts 3) (\<lambda>dst.
         sum_bind (set_var s2 dst (a - b)) advance)))))
       else if op = ''RET'' then
         sum_bind (list_get parts 1) (\<lambda>x.
         sum_bind (eval_arg s x) (\<lambda>(val, s1).
         sum_bind (pop s1) (\<lambda>(ret_addr, s2).
         sum_bind (pop_scope s2) (\<lambda>s3.
         sum_bind (set_var s3 ''_retval'' val) (\<lambda>s4.
         Inr (Continue (s4\<lparr>pc := ret_addr\<rparr>)))))))
       else if op = ''JGE'' then
         sum_bind (list_get parts 1) (\<lambda>x.
         sum_bind (eval_arg s x) (\<lambda>(val, s1).
         sum_bind (list_get parts 2) (\<lambda>y.
         sum_bind (py_int y) (\<lambda>threshold.
         sum_bind (list_get parts 3) (\<lambda>label.
         if threshold \<le> val then jump s1 label else advance s1)))))
       else if op = ''JGT'' then
         sum_bind (list_get parts 1) (\<lambda>x.
         sum_bind (eval_arg s x) (\<lambda>(val, s1).
         sum_bind (list_get parts 2) (\<lambda>y.
         sum_bind (eval_arg s1 y) (\<lambda>(threshold, s2).
         sum_bind (list_get parts 3) (\<lambda>label.
         if threshold < val then jump s2 label else advance s2)))))
       else if op = ''PUSH'' then
         sum_bind (list_get parts 1) (\<lambda>x.
         sum_bind (eval_arg s x) (\<lambda>(val, s1).
         sum_bind (push s1 val) advance))
       else if op = ''CALL'' then
         sum_bind (pop s) (\<lambda>(arg, s1).
         sum_bind (push s1 (pc s + 1)) (\<lambda>s2.
         sum_bind (push s2 arg) (\<lambda>s3.
         sum_bind (list_get parts 1) (\<lambda>label.
         jump (s3\<lparr>scope_stack := scope_stack s3 @ [[]]\<rparr>) label))))
       else if op = ''PRINT'' then
         sum_bind (list_get parts 1) (\<lambda>x.
         sum_bind (eval_arg s x) (\<lambda>(val, s1).
         advance (s1\<lparr>output_lines := output_lines s1 @ [str_int val]\<rparr>)))
       else if op = ''HALT'' then Inr (Break s)
       else Inr (Break s))"

text \<open>\<^verbatim>\<open>instr = self.program[self.pc]; parts = instr.split()\<close>, then the instruction.\<close>

definition step :: "vm \<Rightarrow> error + outcome" where
  "step s = sum_bind (py_index (program s) (pc s)) (\<lambda>instr. exec_instr s (split_ws instr))"

text \<open>
  The loop \<^verbatim>\<open>while self.pc < len(self.program)\<close>. It need not end, so its result is an
  \<open>option\<close>: \<open>None\<close> when it runs forever, else the exception or the machine at the
  end.
\<close>

partial_function (option) run_loop :: "vm \<Rightarrow> (error + vm) option" where
  "run_loop s =
     (if pc s < int (length (program s)) then
        (case step s of
           Inl e \<Rightarrow> Some (Inl e)
         | Inr (Continue s') \<Rightarrow> run_loop s'
         | Inr (Break s') \<Rightarrow> Some (Inr s'))
      else Some (Inr s))"

declare run_loop.simps [code]

text \<open>\<^verbatim>\<open>run\<close> resets the two pointers and the output, loops, and returns the output.\<close>

definition run :: "vm \<Rightarrow> (error + string list) option" where
  "run s =
     (case run_loop (s\<lparr>pc := 0, sp := 0, output_lines := []\<rparr>) of
        None \<Rightarrow> None
      | Some (Inl e) \<Rightarrow> Some (Inl e)
      | Some (Inr s') \<Rightarrow> Some (Inr (output_lines s')))"

text \<open>\<^verbatim>\<open>execute(code)\<close>: a new machine of the default sizes, loaded and run.\<close>

definition execute :: "string list \<Rightarrow> (error + string list) option" where
  "execute code =
     (case load_program (VirtualHardware 512 16) code of
        Inl e \<Rightarrow> Some (Inl e)
      | Inr s \<Rightarrow> run s)"

text \<open>
  The two calls of the test section of the source file, one after the other:
  \<^verbatim>\<open>assembly = compile(source); output = execute(assembly)\<close>.
\<close>

definition compile_and_execute :: "string list \<Rightarrow> (error + string list) option" where
  "compile_and_execute source =
     (case compile source of
        Inl e \<Rightarrow> Some (Inl e)
      | Inr assembly \<Rightarrow> execute assembly)"

section \<open>Properties\<close>

subsection \<open>Executing one instruction\<close>

text \<open>
  The three kinds of operand of \<^verbatim>\<open>eval_arg\<close>, in the order of its tests: an integer
  literal, a temporary, and any other token, which names a variable.
\<close>

lemma sum_bind_Inr [simp]: "sum_bind (Inr x) f = f x"
  by (simp add: sum_bind_def)

lemma sum_bind_Inl [simp]: "sum_bind (Inl e) f = Inl e"
  by (simp add: sum_bind_def)

definition is_literal :: "string \<Rightarrow> bool" where
  "is_literal x = (isdigit x \<or> (startswith x ''-'' \<and> isdigit (drop 1 x)))"

definition is_var :: "string \<Rightarrow> bool" where
  "is_var x = (\<not> is_literal x \<and> \<not> is_temp_var x)"

definition is_temp :: "string \<Rightarrow> bool" where
  "is_temp x = (\<not> is_literal x \<and> is_temp_var x)"

lemma eval_arg_literal: "is_literal x \<Longrightarrow> eval_arg s x = Inr (int_literal x, s)"
  by (simp add: eval_arg_def is_literal_def)

lemma eval_arg_temp:
  "is_temp x \<Longrightarrow> eval_arg s x = sum_bind (list_get (registers s) (get_temp_register x)) (\<lambda>v. Inr (v, s))"
  by (auto simp: eval_arg_def is_literal_def is_temp_def)

lemma get_var_addr_var:
  "is_var x \<Longrightarrow> scope_stack s \<noteq> [] \<Longrightarrow>
   get_var_addr s x =
     (case map_of (last (scope_stack s)) x of
        Some a \<Rightarrow> Inr (Some a, s)
      | None \<Rightarrow> Inr (Some (next_mem_addr s),
           s\<lparr>next_mem_addr := next_mem_addr s + 1,
             scope_stack := butlast (scope_stack s) @ [last (scope_stack s) @ [(x, next_mem_addr s)]]\<rparr>))"
  by (simp add: get_var_addr_def is_var_def Let_def split: option.split)

lemma eval_arg_var:
  "is_var x \<Longrightarrow> scope_stack s \<noteq> [] \<Longrightarrow>
   eval_arg s x =
     (case map_of (last (scope_stack s)) x of
        Some a \<Rightarrow> sum_bind (list_get (memory s) a) (\<lambda>v. Inr (v, s))
      | None \<Rightarrow> sum_bind (list_get (memory s) (next_mem_addr s)) (\<lambda>v. Inr (v,
           s\<lparr>next_mem_addr := next_mem_addr s + 1,
             scope_stack := butlast (scope_stack s) @ [last (scope_stack s) @ [(x, next_mem_addr s)]]\<rparr>)))"
  by (auto simp: eval_arg_def get_var_addr_var is_var_def is_literal_def split: option.split)

lemma set_var_temp:
  "is_temp_var x \<Longrightarrow> set_var s x v =
     sum_bind (list_set (registers s) (get_temp_register x) v) (\<lambda>rs. Inr (s\<lparr>registers := rs\<rparr>))"
  by (simp add: set_var_def)

lemma set_var_var:
  "is_var x \<Longrightarrow> scope_stack s \<noteq> [] \<Longrightarrow>
   set_var s x v =
     (case map_of (last (scope_stack s)) x of
        Some a \<Rightarrow> sum_bind (list_set (memory s) a v) (\<lambda>m. Inr (s\<lparr>memory := m\<rparr>))
      | None \<Rightarrow> sum_bind (list_set (memory s) (next_mem_addr s) v) (\<lambda>m. Inr
           (s\<lparr>next_mem_addr := next_mem_addr s + 1,
             scope_stack := butlast (scope_stack s) @ [last (scope_stack s) @ [(x, next_mem_addr s)]],
             memory := m\<rparr>)))"
  by (auto simp: set_var_def get_var_addr_var is_var_def split: option.split)

lemma exec_LABEL: "exec_instr s (''LABEL'' # args) = advance s"
  by (simp add: exec_instr_def list_get_def)

lemma exec_JMP: "exec_instr s [''JMP'', l] = jump s l"
  by (simp add: exec_instr_def list_get_def)

lemma exec_PARAM: "exec_instr s [''PARAM'', x] =
   sum_bind (pop s) (\<lambda>(val, s1). sum_bind (set_var s1 x val) advance)"
  by (simp add: exec_instr_def list_get_def)

lemma exec_MOV: "exec_instr s [''MOV'', x, d] =
   sum_bind (eval_arg s x) (\<lambda>(val, s1). sum_bind (set_var s1 d val) advance)"
  by (simp add: exec_instr_def list_get_def)

lemma exec_ADD: "exec_instr s [''ADD'', x, y, d] =
   sum_bind (eval_arg s x) (\<lambda>(a, s1). sum_bind (eval_arg s1 y) (\<lambda>(b, s2).
     sum_bind (set_var s2 d (a + b)) advance))"
  by (simp add: exec_instr_def list_get_def)

lemma exec_SUB: "exec_instr s [''SUB'', x, y, d] =
   sum_bind (eval_arg s x) (\<lambda>(a, s1). sum_bind (eval_arg s1 y) (\<lambda>(b, s2).
     sum_bind (set_var s2 d (a - b)) advance))"
  by (simp add: exec_instr_def list_get_def)

lemma exec_RET: "exec_instr s [''RET'', x] =
   sum_bind (eval_arg s x) (\<lambda>(val, s1). sum_bind (pop s1) (\<lambda>(ret_addr, s2).
     sum_bind (pop_scope s2) (\<lambda>s3. sum_bind (set_var s3 ''_retval'' val) (\<lambda>s4.
       Inr (Continue (s4\<lparr>pc := ret_addr\<rparr>))))))"
  by (simp add: exec_instr_def list_get_def)

lemma exec_JGE: "exec_instr s [''JGE'', x, y, l] =
   sum_bind (eval_arg s x) (\<lambda>(val, s1). sum_bind (py_int y) (\<lambda>threshold.
     if threshold \<le> val then jump s1 l else advance s1))"
  by (simp add: exec_instr_def list_get_def)

lemma exec_JGT: "exec_instr s [''JGT'', x, y, l] =
   sum_bind (eval_arg s x) (\<lambda>(val, s1). sum_bind (eval_arg s1 y) (\<lambda>(threshold, s2).
     if threshold < val then jump s2 l else advance s2))"
  by (simp add: exec_instr_def list_get_def)

lemma exec_PUSH: "exec_instr s [''PUSH'', x] =
   sum_bind (eval_arg s x) (\<lambda>(val, s1). sum_bind (push s1 val) advance)"
  by (simp add: exec_instr_def list_get_def)

lemma exec_CALL: "exec_instr s [''CALL'', l] =
   sum_bind (pop s) (\<lambda>(arg, s1). sum_bind (push s1 (pc s + 1)) (\<lambda>s2.
     sum_bind (push s2 arg) (\<lambda>s3. jump (s3\<lparr>scope_stack := scope_stack s3 @ [[]]\<rparr>) l)))"
  by (simp add: exec_instr_def list_get_def)

lemma exec_PRINT: "exec_instr s [''PRINT'', x] =
   sum_bind (eval_arg s x) (\<lambda>(val, s1).
     advance (s1\<lparr>output_lines := output_lines s1 @ [str_int val]\<rparr>))"
  by (simp add: exec_instr_def list_get_def)

lemma exec_HALT: "exec_instr s (''HALT'' # args) = Inr (Break s)"
  by (simp add: exec_instr_def list_get_def)

lemmas exec_simps = exec_LABEL exec_JMP exec_PARAM exec_MOV exec_ADD exec_SUB exec_RET exec_JGE
  exec_JGT exec_PUSH exec_CALL exec_PRINT exec_HALT

subsection \<open>Running a loaded program\<close>

text \<open>
  One turn of the loop at a counter inside the program, with the fetch done: the
  instruction is the line at the counter, split into words.
\<close>

lemma run_loop_fetch:
  assumes "0 \<le> pc s" and "nat (pc s) < length (program s)"
  shows "run_loop s =
     (case exec_instr s (split_ws (program s ! nat (pc s))) of
        Inl e \<Rightarrow> Some (Inl e)
      | Inr (Continue s') \<Rightarrow> run_loop s'
      | Inr (Break s') \<Rightarrow> Some (Inr s'))"
proof -
  from assms have "pc s < int (length (program s))" by linarith
  moreover from assms have "step s = exec_instr s (split_ws (program s ! nat (pc s)))"
    by (simp add: step_def py_index_def list_get_def)
  ultimately show ?thesis
    by (subst run_loop.simps) simp
qed

lemmas vm_ops = advance_def jump_def label_index_def push_def pop_def pop_scope_def
  list_get_def list_set_def eval_arg_literal eval_arg_temp eval_arg_var set_var_temp set_var_var

lemma butlast_snoc2 [simp]: "butlast (xs @ [x, y]) = xs @ [x]"
  by (simp add: butlast_append)

lemma butlast_snoc3 [simp]: "butlast (xs @ [x, y, z]) = xs @ [x, y]"
  by (simp add: butlast_append)


subsection \<open>The Fibonacci program\<close>

text \<open>
  The first test program of the source file, \<^verbatim>\<open>fib_source\<close> (without its blank
  line, which the parser drops), and the assembly
  \<^verbatim>\<open>compile\<close> makes of it. \<open>fib\<close> is the function the program computes and
  \<open>cells n\<close> the number of memory addresses a call with argument \<open>n\<close> binds in its
  own scope and the scopes of the calls it makes: one for \<^verbatim>\<open>n\<close>, and from 2 on three
  more for \<^verbatim>\<open>_retval\<close>, \<^verbatim>\<open>a\<close> and \<^verbatim>\<open>b\<close>.
\<close>

definition fib_source :: "string list" where
  "fib_source = [''def fib n'', ''if n < 2'', ''return n'', ''end'', ''a = fib n - 1'',
     ''b = fib n - 2'', ''return a + b'', ''end'', ''main = fib 9'', ''print main'']"

definition fib_code :: "string list" where
  "fib_code = [''JMP main'', ''LABEL fib'', ''PARAM n'', ''JGE n 2 tmp1_end'',
      ''RET n'', ''LABEL tmp1_end'', ''SUB n 1 tmp2'', ''PUSH tmp2'',
      ''CALL fib'', ''MOV _retval tmp3'', ''MOV tmp3 a'', ''SUB n 2 tmp4'',
      ''PUSH tmp4'', ''CALL fib'', ''MOV _retval tmp5'', ''MOV tmp5 b'',
      ''ADD a b tmp6'', ''RET tmp6'', ''LABEL main'', ''PUSH 9'',
      ''CALL fib'', ''MOV _retval tmp7'', ''MOV tmp7 main'', ''PRINT main'',
      ''HALT'']"

definition fib_labels :: dict where
  "fib_labels = [(''fib'', 1), (''tmp1_end'', 5), (''main'', 18)]"

lemma compile_fib_source: "compile fib_source = Inr fib_code"
  unfolding fib_source_def fib_code_def by code_simp

lemma build_fib_labels: "build_labels 0 fib_code [] = Inr fib_labels"
  unfolding fib_labels_def fib_code_def by code_simp

lemma length_fib_code: "length fib_code = 25"
  by (simp add: fib_code_def)

lemma fib_instr:
  "split_ws (fib_code ! 0) = [''JMP'', ''main'']"
  "split_ws (fib_code ! Suc 0) = [''LABEL'', ''fib'']"
  "split_ws (fib_code ! 2) = [''PARAM'', ''n'']"
  "split_ws (fib_code ! 3) = [''JGE'', ''n'', ''2'', ''tmp1_end'']"
  "split_ws (fib_code ! 4) = [''RET'', ''n'']"
  "split_ws (fib_code ! 5) = [''LABEL'', ''tmp1_end'']"
  "split_ws (fib_code ! 6) = [''SUB'', ''n'', ''1'', ''tmp2'']"
  "split_ws (fib_code ! 7) = [''PUSH'', ''tmp2'']"
  "split_ws (fib_code ! 8) = [''CALL'', ''fib'']"
  "split_ws (fib_code ! 9) = [''MOV'', ''_retval'', ''tmp3'']"
  "split_ws (fib_code ! 10) = [''MOV'', ''tmp3'', ''a'']"
  "split_ws (fib_code ! 11) = [''SUB'', ''n'', ''2'', ''tmp4'']"
  "split_ws (fib_code ! 12) = [''PUSH'', ''tmp4'']"
  "split_ws (fib_code ! 13) = [''CALL'', ''fib'']"
  "split_ws (fib_code ! 14) = [''MOV'', ''_retval'', ''tmp5'']"
  "split_ws (fib_code ! 15) = [''MOV'', ''tmp5'', ''b'']"
  "split_ws (fib_code ! 16) = [''ADD'', ''a'', ''b'', ''tmp6'']"
  "split_ws (fib_code ! 17) = [''RET'', ''tmp6'']"
  "split_ws (fib_code ! 18) = [''LABEL'', ''main'']"
  "split_ws (fib_code ! 19) = [''PUSH'', ''9'']"
  "split_ws (fib_code ! 20) = [''CALL'', ''fib'']"
  "split_ws (fib_code ! 21) = [''MOV'', ''_retval'', ''tmp7'']"
  "split_ws (fib_code ! 22) = [''MOV'', ''tmp7'', ''main'']"
  "split_ws (fib_code ! 23) = [''PRINT'', ''main'']"
  "split_ws (fib_code ! 24) = [''HALT'']"
  unfolding fib_code_def by code_simp+

lemma fib_tokens:
  "is_var ''n''" "is_var ''a''" "is_var ''b''" "is_var ''_retval''" "is_var ''main''"
  "is_temp ''tmp2''" "is_temp ''tmp3''" "is_temp ''tmp4''" "is_temp ''tmp5''" "is_temp ''tmp6''" "is_temp ''tmp7''"
  "is_temp_var ''tmp2''" "is_temp_var ''tmp3''" "is_temp_var ''tmp4''" "is_temp_var ''tmp5''" "is_temp_var ''tmp6''" "is_temp_var ''tmp7''"
  "get_temp_register ''tmp2'' = 2" "get_temp_register ''tmp3'' = 3" "get_temp_register ''tmp4'' = 4"
  "get_temp_register ''tmp5'' = 5" "get_temp_register ''tmp6'' = 6" "get_temp_register ''tmp7'' = 7"
  "is_literal ''1''" "is_literal ''2''" "is_literal ''9''"
  "int_literal ''1'' = 1" "int_literal ''2'' = 2" "int_literal ''9'' = 9"
  "py_int ''2'' = Inr 2"
  by code_simp+

lemma fib_label_index:
  "map_of fib_labels ''fib'' = Some 1"
  "map_of fib_labels ''tmp1_end'' = Some 5"
  "map_of fib_labels ''main'' = Some 18"
  by (simp_all add: fib_labels_def)


abbreviation fib_vm ::
  "int list \<Rightarrow> int list \<Rightarrow> int list \<Rightarrow> int \<Rightarrow> nat \<Rightarrow> nat \<Rightarrow> dict list \<Rightarrow> string list \<Rightarrow> vm" where
  "fib_vm m r st p q a ss out \<equiv>
     \<lparr>memory = m, registers = r, stack = st, pc = p, sp = q, bp = 0, labels = fib_labels,
      next_mem_addr = a, scope_stack = ss, program = fib_code, output_lines = out\<rparr>"

lemma fib_step:
  assumes "program s = fib_code" and "0 \<le> pc s" and "pc s < 25" and "pc s \<noteq> 1"
  shows "run_loop s =
     (case exec_instr s (split_ws (fib_code ! nat (pc s))) of
        Inl e \<Rightarrow> Some (Inl e)
      | Inr (Continue s') \<Rightarrow> run_loop s'
      | Inr (Break s') \<Rightarrow> Some (Inr s'))"
  using run_loop_fetch [of s] assms by (simp add: length_fib_code)

lemma fib_entry:
  "run_loop (fib_vm m r st 1 q a ss out) = run_loop (fib_vm m r st 2 q a ss out)"
  by (subst run_loop_fetch) (simp_all add: length_fib_code fib_instr exec_simps vm_ops)


fun fib :: "nat \<Rightarrow> nat" where
  "fib n = (if n < 2 then n else fib (n - 1) + fib (n - 2))"

fun cells :: "nat \<Rightarrow> nat" where
  "cells n = (if n < 2 then 1 else 4 + cells (n - 1) + cells (n - 2))"

declare fib.simps [simp del] cells.simps [simp del]

definition retval_addr :: "dict \<Rightarrow> nat \<Rightarrow> nat" where
  "retval_addr scope free = (case map_of scope ''_retval'' of Some i \<Rightarrow> i | None \<Rightarrow> free)"

definition bind_retval :: "dict \<Rightarrow> nat \<Rightarrow> dict" where
  "bind_retval scope free =
     (case map_of scope ''_retval'' of Some i \<Rightarrow> scope | None \<Rightarrow> scope @ [(''_retval'', free)])"

definition retval_cells :: "dict \<Rightarrow> nat" where
  "retval_cells scope = (case map_of scope ''_retval'' of Some i \<Rightarrow> 0 | None \<Rightarrow> 1)"

lemmas fib_exec = fib_step fib_instr exec_simps vm_ops fib_tokens fib_label_index

lemma fib_leaf:
  assumes "length m = 512" "length r = 16" "length st = 16" "Suc (Suc q) \<le> 16" "Suc (Suc a) \<le> 512"
    "st ! Suc q = int n" "st ! q = ret" "n < 2" "retval_addr caller (Suc a) < 512"
  shows "run_loop (fib_vm m r st 1 (Suc (Suc q)) a (ss @ [caller, []]) out) =
         run_loop (fib_vm (m[a := int n, retval_addr caller (Suc a) := int n]) r st ret q
            (Suc a + retval_cells caller) (ss @ [bind_retval caller (Suc a)]) out)"
  using assms unfolding fib_entry
  by (simp add: fib_exec retval_addr_def bind_retval_def retval_cells_def split: option.splits)

lemma fib_seg1:
  assumes "length m = 512" "length r = 16" "length st = 16" "Suc (Suc (Suc q)) \<le> 16" "Suc a \<le> 512"
    "st ! Suc q = int n" "2 \<le> n"
  shows "run_loop (fib_vm m r st 1 (Suc (Suc q)) a (ss @ [caller, []]) out) =
         run_loop (fib_vm (m[a := int n]) (r[2 := int n - 1]) (st[Suc q := 9, Suc (Suc q) := int n - 1])
            1 (Suc (Suc (Suc q))) (Suc a) (ss @ [caller, [(''n'', a)], []]) out)"
  using assms by (subst fib_entry) (simp add: fib_exec)

lemma fib_seg2:
  assumes "length m = 512" "length r = 16" "length st = 16" "Suc (Suc (Suc q)) \<le> 16" "Suc a1 \<le> 512"
    "a < a1" "x < a1" "m ! a = int n"
  shows "run_loop (fib_vm m r st 9 (Suc q) a1 (ss @ [caller, [(''n'', a), (''_retval'', x)]]) out) =
         run_loop (fib_vm (m[a1 := m ! x]) (r[3 := m ! x, 4 := int n - 2])
            (st[Suc q := 14, Suc (Suc q) := int n - 2])
            1 (Suc (Suc (Suc q))) (Suc a1)
            (ss @ [caller, [(''n'', a), (''_retval'', x), (''a'', a1)], []]) out)"
  using assms by (simp add: fib_exec)

lemma fib_seg3:
  assumes "length m = 512" "length r = 16" "length st = 16" "Suc q \<le> 16" "Suc a2 \<le> 512"
    "x < a2" "y < a2" "st ! q = ret" "retval_addr caller (Suc a2) < 512"
  shows "run_loop (fib_vm m r st 14 (Suc q) a2
            (ss @ [caller, [(''n'', a), (''_retval'', x), (''a'', y)]]) out) =
         run_loop (fib_vm (m[a2 := m ! x, retval_addr caller (Suc a2) := m ! y + m ! x])
            (r[5 := m ! x, 6 := m ! y + m ! x]) st ret q
            (Suc a2 + retval_cells caller) (ss @ [bind_retval caller (Suc a2)]) out)"
  using assms
  by (simp add: fib_exec retval_addr_def bind_retval_def retval_cells_def split: option.splits)


lemma fib_call:
  assumes "length m = 512" and "length r = 16" and "length st = 16"
    and "Suc (Suc q) + n \<le> 16" and "Suc (a + cells n) \<le> 512"
    and "st ! Suc q = int n" and "st ! q = ret"
    and "retval_addr caller (a + cells n) < 512"
  shows "\<exists>m' r' st'.
     run_loop (fib_vm m r st 1 (Suc (Suc q)) a (ss @ [caller, []]) out) =
     run_loop (fib_vm m' r' st' ret q (a + cells n + retval_cells caller)
                 (ss @ [bind_retval caller (a + cells n)]) out)
     \<and> length m' = 512 \<and> length r' = 16 \<and> length st' = 16
     \<and> m' ! retval_addr caller (a + cells n) = int (fib n)
     \<and> (\<forall>i<a. i \<noteq> retval_addr caller (a + cells n) \<longrightarrow> m' ! i = m ! i)
     \<and> (\<forall>i<q. st' ! i = st ! i)"
  using assms
proof (induction n arbitrary: m r st q a ret caller ss rule: less_induct)
  case (less n)
  note len = less.prems(1-3)
  show ?case
  proof (cases "n < 2")
    case True
    then have c: "cells n = 1" and f: "fib n = n"
      by (simp_all add: cells.simps fib.simps)
    let ?ra = "retval_addr caller (Suc a)"
    have "run_loop (fib_vm m r st 1 (Suc (Suc q)) a (ss @ [caller, []]) out) =
          run_loop (fib_vm (m[a := int n, ?ra := int n]) r st ret q
             (Suc a + retval_cells caller) (ss @ [bind_retval caller (Suc a)]) out)"
      using less.prems True c by (intro fib_leaf) simp_all
    moreover have "(m[a := int n, ?ra := int n]) ! ?ra = int (fib n)"
      using less.prems c f by simp
    moreover have "\<forall>i<a. i \<noteq> ?ra \<longrightarrow> (m[a := int n, ?ra := int n]) ! i = m ! i"
      by simp
    ultimately show ?thesis
      using len c by (intro exI [of _ "m[a := int n, ?ra := int n]"] exI [of _ r] exI [of _ st]) simp
  next
    case False
    then have n2: "2 \<le> n" by simp
    then have c: "cells n = 4 + cells (n - 1) + cells (n - 2)"
      and f: "fib n = fib (n - 1) + fib (n - 2)"
      by (simp_all add: cells.simps [of n] fib.simps [of n])
    let ?x = "Suc a + cells (n - 1)"
    let ?y = "Suc ?x"
    let ?z = "Suc ?y + cells (n - 2)"
    have seg1: "run_loop (fib_vm m r st 1 (Suc (Suc q)) a (ss @ [caller, []]) out) =
         run_loop (fib_vm (m[a := int n]) (r[2 := int n - 1]) (st[Suc q := 9, Suc (Suc q) := int n - 1])
            1 (Suc (Suc (Suc q))) (Suc a) (ss @ [caller, [(''n'', a)], []]) out)"
      using less.prems n2 c by (intro fib_seg1) simp_all
    have "\<exists>m1 r1 st1.
       run_loop (fib_vm (m[a := int n]) (r[2 := int n - 1]) (st[Suc q := 9, Suc (Suc q) := int n - 1])
            1 (Suc (Suc (Suc q))) (Suc a) (ss @ [caller, [(''n'', a)], []]) out) =
       run_loop (fib_vm m1 r1 st1 9 (Suc q) ?y (ss @ [caller, [(''n'', a), (''_retval'', ?x)]]) out)
       \<and> length m1 = 512 \<and> length r1 = 16 \<and> length st1 = 16
       \<and> m1 ! ?x = int (fib (n - 1))
       \<and> (\<forall>i<Suc a. i \<noteq> ?x \<longrightarrow> m1 ! i = (m[a := int n]) ! i)
       \<and> (\<forall>i<Suc q. st1 ! i = (st[Suc q := 9, Suc (Suc q) := int n - 1]) ! i)"
      using less.IH [of "n - 1" "m[a := int n]" "r[2 := int n - 1]"
          "st[Suc q := 9, Suc (Suc q) := int n - 1]" "Suc q" "Suc a" 9 "[(''n'', a)]" "ss @ [caller]"]
        less.prems n2 c
      by (simp add: retval_addr_def bind_retval_def retval_cells_def of_nat_diff)
    then obtain m1 r1 st1 where
      call1: "run_loop (fib_vm (m[a := int n]) (r[2 := int n - 1]) (st[Suc q := 9, Suc (Suc q) := int n - 1])
            1 (Suc (Suc (Suc q))) (Suc a) (ss @ [caller, [(''n'', a)], []]) out) =
         run_loop (fib_vm m1 r1 st1 9 (Suc q) ?y (ss @ [caller, [(''n'', a), (''_retval'', ?x)]]) out)"
      and len1: "length m1 = 512" "length r1 = 16" "length st1 = 16"
      and ret1: "m1 ! ?x = int (fib (n - 1))"
      and frame1: "\<forall>i<Suc a. i \<noteq> ?x \<longrightarrow> m1 ! i = (m[a := int n]) ! i"
      and stack1: "\<forall>i<Suc q. st1 ! i = (st[Suc q := 9, Suc (Suc q) := int n - 1]) ! i"
      by blast
    from frame1 less.prems have m1a: "m1 ! a = int n"
      by simp
    have seg2: "run_loop (fib_vm m1 r1 st1 9 (Suc q) ?y (ss @ [caller, [(''n'', a), (''_retval'', ?x)]]) out) =
         run_loop (fib_vm (m1[?y := m1 ! ?x]) (r1[3 := m1 ! ?x, 4 := int n - 2])
            (st1[Suc q := 14, Suc (Suc q) := int n - 2])
            1 (Suc (Suc (Suc q))) (Suc ?y)
            (ss @ [caller, [(''n'', a), (''_retval'', ?x), (''a'', ?y)], []]) out)"
      using len1 less.prems n2 c m1a by (intro fib_seg2) simp_all
    have "\<exists>m2 r2 st2.
       run_loop (fib_vm (m1[?y := m1 ! ?x]) (r1[3 := m1 ! ?x, 4 := int n - 2])
            (st1[Suc q := 14, Suc (Suc q) := int n - 2])
            1 (Suc (Suc (Suc q))) (Suc ?y)
            (ss @ [caller, [(''n'', a), (''_retval'', ?x), (''a'', ?y)], []]) out) =
       run_loop (fib_vm m2 r2 st2 14 (Suc q) ?z
            (ss @ [caller, [(''n'', a), (''_retval'', ?x), (''a'', ?y)]]) out)
       \<and> length m2 = 512 \<and> length r2 = 16 \<and> length st2 = 16
       \<and> m2 ! ?x = int (fib (n - 2))
       \<and> (\<forall>i<Suc ?y. i \<noteq> ?x \<longrightarrow> m2 ! i = (m1[?y := m1 ! ?x]) ! i)
       \<and> (\<forall>i<Suc q. st2 ! i = (st1[Suc q := 14, Suc (Suc q) := int n - 2]) ! i)"
      using less.IH [of "n - 2" "m1[?y := m1 ! ?x]" "r1[3 := m1 ! ?x, 4 := int n - 2]"
          "st1[Suc q := 14, Suc (Suc q) := int n - 2]" "Suc q" "Suc ?y" 14
          "[(''n'', a), (''_retval'', ?x), (''a'', ?y)]" "ss @ [caller]"]
        less.prems n2 c len1
      by (simp add: retval_addr_def bind_retval_def retval_cells_def of_nat_diff)
    then obtain m2 r2 st2 where
      call2: "run_loop (fib_vm (m1[?y := m1 ! ?x]) (r1[3 := m1 ! ?x, 4 := int n - 2])
            (st1[Suc q := 14, Suc (Suc q) := int n - 2])
            1 (Suc (Suc (Suc q))) (Suc ?y)
            (ss @ [caller, [(''n'', a), (''_retval'', ?x), (''a'', ?y)], []]) out) =
         run_loop (fib_vm m2 r2 st2 14 (Suc q) ?z
            (ss @ [caller, [(''n'', a), (''_retval'', ?x), (''a'', ?y)]]) out)"
      and len2: "length m2 = 512" "length r2 = 16" "length st2 = 16"
      and ret2: "m2 ! ?x = int (fib (n - 2))"
      and frame2: "\<forall>i<Suc ?y. i \<noteq> ?x \<longrightarrow> m2 ! i = (m1[?y := m1 ! ?x]) ! i"
      and stack2: "\<forall>i<Suc q. st2 ! i = (st1[Suc q := 14, Suc (Suc q) := int n - 2]) ! i"
      by blast
    from frame2 len1 less.prems c ret1 have m2y: "m2 ! ?y = int (fib (n - 1))"
      by simp
    from stack2 stack1 less.prems have st2q: "st2 ! q = ret"
      by simp
    let ?ra = "retval_addr caller (a + cells n)"
    let ?m' = "m2[?z := m2 ! ?x, ?ra := m2 ! ?y + m2 ! ?x]"
    let ?r' = "r2[5 := m2 ! ?x, 6 := m2 ! ?y + m2 ! ?x]"
    have az: "Suc ?z = a + cells n"
      using c by simp
    note ra = less.prems(8)
    have "Suc ?z \<le> 512"
      using less.prems(5) unfolding az by simp
    with len2 st2q ra
    have "run_loop (fib_vm m2 r2 st2 14 (Suc q) ?z
            (ss @ [caller, [(''n'', a), (''_retval'', ?x), (''a'', ?y)]]) out) =
         run_loop (fib_vm (m2[?z := m2 ! ?x, retval_addr caller (Suc ?z) := m2 ! ?y + m2 ! ?x])
            ?r' st2 ret q
            (Suc ?z + retval_cells caller) (ss @ [bind_retval caller (Suc ?z)]) out)"
      unfolding az [symmetric] using less.prems(4) by (intro fib_seg3) simp_all
    then have seg3: "run_loop (fib_vm m2 r2 st2 14 (Suc q) ?z
            (ss @ [caller, [(''n'', a), (''_retval'', ?x), (''a'', ?y)]]) out) =
         run_loop (fib_vm ?m' ?r' st2 ret q
            (a + cells n + retval_cells caller) (ss @ [bind_retval caller (a + cells n)]) out)"
      unfolding az .
    have result: "?m' ! ?ra = int (fib n)"
      using len2 ra ret2 m2y f by simp
    have frame: "\<forall>i<a. i \<noteq> ?ra \<longrightarrow> ?m' ! i = m ! i"
    proof (intro allI impI)
      fix i assume i: "i < a" "i \<noteq> ?ra"
      then have "?m' ! i = m2 ! i" by simp
      also from i frame2 have "\<dots> = (m1[?y := m1 ! ?x]) ! i" by simp
      also from i have "\<dots> = m1 ! i" by simp
      also from i frame1 have "\<dots> = (m[a := int n]) ! i" by simp
      also from i have "\<dots> = m ! i" by simp
      finally show "?m' ! i = m ! i" .
    qed
    have stack: "\<forall>i<q. st2 ! i = st ! i"
      using stack1 stack2 by simp
    note seg1
    also note call1
    also note seg2
    also note call2
    also note seg3
    finally have total: "run_loop (fib_vm m r st 1 (Suc (Suc q)) a (ss @ [caller, []]) out) =
          run_loop (fib_vm ?m' ?r' st2 ret q
            (a + cells n + retval_cells caller) (ss @ [bind_retval caller (a + cells n)]) out)" .
    have "length ?m' = 512" "length ?r' = 16"
      using len2 by simp_all
    with total result frame stack len2(3) show ?thesis
      by blast
  qed
qed


lemma fib_9: "fib 9 = 34" "cells 9 = 271"
  by code_simp+

lemma str_int_34: "str_int 34 = ''34''"
  by code_simp

lemma fib_main_before:
  "run_loop (fib_vm (replicate 512 0) (replicate 16 0) (replicate 16 0) 0 0 0 [[]] []) =
   run_loop (fib_vm (replicate 512 0) (replicate 16 0) ((replicate 16 0)[0 := 21, Suc 0 := 9])
      1 (Suc (Suc 0)) 0 ([] @ [[], []]) [])"
  by (simp add: fib_exec)

lemma fib_main_after:
  assumes "length m = 512" "length r = 16" "length st = 16" "m ! 271 = 34"
  shows "run_loop (fib_vm m r st 21 0 272 [[(''_retval'', 271)]] []) =
         Some (Inr (fib_vm (m[272 := 34]) (r[7 := 34]) st 24 0 273
            [[(''_retval'', 271), (''main'', 272)]] [''34'']))"
  using assms by (simp add: fib_exec str_int_34)

lemma execute_fib_code: "execute fib_code = Some (Inr [''34''])"
proof -
  let ?st = "(replicate 16 (0::int))[0 := 21, Suc 0 := 9]"
  have "\<exists>m' r' st'.
     run_loop (fib_vm (replicate 512 0) (replicate 16 0) ?st 1 (Suc (Suc 0)) 0 ([] @ [[], []]) []) =
     run_loop (fib_vm m' r' st' 21 0 (0 + cells 9 + retval_cells [])
                 ([] @ [bind_retval [] (0 + cells 9)]) [])
     \<and> length m' = 512 \<and> length r' = 16 \<and> length st' = 16
     \<and> m' ! retval_addr [] (0 + cells 9) = int (fib 9)
     \<and> (\<forall>i<0. i \<noteq> retval_addr [] (0 + cells 9) \<longrightarrow> m' ! i = replicate 512 0 ! i)
     \<and> (\<forall>i<0. st' ! i = ?st ! i)"
    by (rule fib_call) (simp_all add: fib_9 retval_addr_def)
  then obtain m' r' st' where
    call: "run_loop (fib_vm (replicate 512 0) (replicate 16 0) ?st 1 (Suc (Suc 0)) 0 ([] @ [[], []]) []) =
           run_loop (fib_vm m' r' st' 21 0 272 [[(''_retval'', 271)]] [])"
    and len: "length m' = 512" "length r' = 16" "length st' = 16"
    and res: "m' ! 271 = 34"
    by (auto simp: fib_9 retval_addr_def retval_cells_def bind_retval_def)
  have "run_loop (fib_vm (replicate 512 0) (replicate 16 0) (replicate 16 0) 0 0 0 [[]] []) =
        Some (Inr (fib_vm (m'[272 := 34]) (r'[7 := 34]) st' 24 0 273
            [[(''_retval'', 271), (''main'', 272)]] [''34'']))"
    using fib_main_before call fib_main_after [OF len res] by simp
  then show ?thesis
    by (simp add: execute_def load_program_def build_fib_labels VirtualHardware_def run_def)
qed


text \<open>
  C1. Compiling the Fibonacci program and executing the assembly returns the output
  \<^verbatim>\<open>["34"]\<close>: the run ends, raises nothing, and prints the one line.
\<close>

theorem fib_end_to_end:
  "compile_and_execute
     [''def fib n'', ''if n < 2'', ''return n'', ''end'', ''a = fib n - 1'',
      ''b = fib n - 2'', ''return a + b'', ''end'', ''main = fib 9'', ''print main'']
   = Some (Inr [''34''])"
  using compile_fib_source execute_fib_code
  by (simp add: compile_and_execute_def fib_source_def)

subsection \<open>Opcodes the machine does not know\<close>

text \<open>The thirteen words the chain of tests in \<^verbatim>\<open>run\<close> compares the opcode with.\<close>

definition known_opcodes :: "string list" where
  "known_opcodes = [''LABEL'', ''JMP'', ''PARAM'', ''MOV'', ''ADD'', ''SUB'', ''RET'', ''JGE'',
     ''JGT'', ''PUSH'', ''CALL'', ''PRINT'', ''HALT'']"

lemma exec_instr_unknown:
  assumes "op \<notin> set known_opcodes"
  shows "exec_instr s (op # args) = Inr (Break s)"
  using assms by (simp add: exec_instr_def known_opcodes_def list_get_def)

lemma split_ws_FOO: "split_ws ''FOO 1'' = [''FOO'', ''1'']"
  by code_simp

text \<open>
  C7, as stated, fails: an instruction with an unknown opcode raises nothing. The last
  branch of the chain is a \<^verbatim>\<open>break\<close>, and \<^verbatim>\<open>run\<close> returns the output as it does
  after \<^verbatim>\<open>HALT\<close>. Here the first line is printed, the unknown instruction ends the
  run, and the caller gets the list \<^verbatim>\<open>["1"]\<close>, not an error.
\<close>

theorem unknown_opcode_counterexample:
  "execute [''PRINT 1'', ''FOO 1'', ''PRINT 2''] = Some (Inr [''1''])"
  by code_simp

text \<open>
  C7, amended. Whenever the machine fetches an instruction whose first word is none of
  the thirteen opcodes, the loop ends at once with the machine unchanged, so that
  \<^verbatim>\<open>run\<close> returns the output produced so far; no exception is raised.
\<close>

theorem unknown_opcode_stops:
  assumes "pc s < int (length (program s))"
    and "py_index (program s) (pc s) = Inr instr"
    and "split_ws instr = op # args"
    and "op \<notin> set known_opcodes"
  shows "run_loop s = Some (Inr s)"
proof -
  from assms(2,3) have "step s = exec_instr s (op # args)"
    by (simp add: step_def)
  with assms(4) have "step s = Inr (Break s)"
    by (simp add: exec_instr_unknown)
  with assms(1) show ?thesis
    by (subst run_loop.simps) simp
qed

theorem unknown_opcode_stops_witness:
  "run_loop ((VirtualHardware 512 16)
       \<lparr>program := [''PRINT 1'', ''FOO 1''], pc := 1, output_lines := [''1'']\<rparr>)
   = Some (Inr ((VirtualHardware 512 16)
       \<lparr>program := [''PRINT 1'', ''FOO 1''], pc := 1, output_lines := [''1'']\<rparr>))"
  using unknown_opcode_stops
    [of "(VirtualHardware 512 16)
           \<lparr>program := [''PRINT 1'', ''FOO 1''], pc := 1, output_lines := [''1'']\<rparr>"
        "''FOO 1''" "''FOO''" "[''1'']"]
  by (simp add: py_index_def list_get_def split_ws_FOO known_opcodes_def)

subsection \<open>The thresholds of the conditional jumps\<close>

text \<open>
  C6. The two conditional jumps do not resolve their threshold the same way. \<^verbatim>\<open>JGT\<close>
  resolves it by \<^verbatim>\<open>eval_arg\<close>, as the claim says and as both jumps resolve their first
  operand; \<^verbatim>\<open>JGE\<close> passes the token to \<^verbatim>\<open>int()\<close>. With the variable \<^verbatim>\<open>y\<close> holding 5,
  \<^verbatim>\<open>JGE 7 y L\<close> raises \<^verbatim>\<open>ValueError\<close> where \<^verbatim>\<open>JGT 7 y L\<close> compares 7 with 5 and jumps.
  With the variable \<^verbatim>\<open>1_0\<close> holding 5 (a name for \<^verbatim>\<open>eval_arg\<close>, the number 10 for
  \<^verbatim>\<open>int()\<close>), \<^verbatim>\<open>JGE 7 1_0 L\<close> compares 7 with 10 and does not jump, without any error,
  where \<^verbatim>\<open>JGT 7 1_0 L\<close> compares 7 with 5 and jumps.
\<close>

theorem jge_threshold_divergence:
  "execute [''MOV 5 y'', ''JGE 7 y L'', ''PRINT 0'', ''LABEL L'', ''PRINT 1''] =
     Some (Inl (ValueError ''invalid literal for int() with base 10''))
   \<and> execute [''MOV 5 y'', ''JGT 7 y L'', ''PRINT 0'', ''LABEL L'', ''PRINT 1''] =
     Some (Inr [''1''])
   \<and> execute [''MOV 5 1_0'', ''JGE 7 1_0 L'', ''PRINT 0'', ''LABEL L'', ''PRINT 1''] =
     Some (Inr [''0'', ''1''])
   \<and> execute [''MOV 5 1_0'', ''JGT 7 1_0 L'', ''PRINT 0'', ''LABEL L'', ''PRINT 1''] =
     Some (Inr [''1''])"
  by code_simp

subsection \<open>The machines of a run\<close>

text \<open>
  The addresses bound to names in the scopes of the stack, from the global scope to the
  current one.
\<close>

definition bound_addrs :: "vm \<Rightarrow> nat list" where
  "bound_addrs s = concat (map (map snd) (scope_stack s))"

text \<open>
  What holds of every machine of a run: each bound address was handed out before, so it
  is below the next free address; no address is bound twice, in one scope or in two; and
  the memory keeps the 512 cells \<^verbatim>\<open>execute\<close> builds it with.
\<close>

definition vm_inv :: "vm \<Rightarrow> bool" where
  "vm_inv s = (list_all (\<lambda>a. a < next_mem_addr s) (bound_addrs s) \<and> distinct (bound_addrs s)
     \<and> length (memory s) = 512)"

text \<open>
  The machines a run of \<^verbatim>\<open>execute(code)\<close> goes through: the machine \<^verbatim>\<open>run\<close> starts
  from, and the machine after each turn of the loop that goes on.
\<close>

inductive reachable :: "string list \<Rightarrow> vm \<Rightarrow> bool" where
  start: "load_program (VirtualHardware 512 16) code = Inr s \<Longrightarrow>
     reachable code (s\<lparr>pc := 0, sp := 0, output_lines := []\<rparr>)"
| turn: "reachable code s \<Longrightarrow> pc s < int (length (program s)) \<Longrightarrow>
     step s = Inr (Continue s') \<Longrightarrow> reachable code s'"

lemma sum_bind_InrE:
  assumes "sum_bind m f = Inr r"
  obtains x where "m = Inr x" and "f x = Inr r"
  using assms by (cases m) (simp_all add: sum_bind_def)

lemma bound_in_last:
  assumes "map_of (last ss) x = Some a" and "ss \<noteq> []"
  shows "a \<in> set (concat (map (map snd) ss))"
proof -
  from assms(1) have "(x, a) \<in> set (last ss)"
    by (rule map_of_SomeD)
  then have "a \<in> snd ` set (last ss)"
    by force
  moreover from assms(2) have "last ss \<in> set ss"
    by simp
  ultimately show ?thesis
    by auto
qed

lemma concat_bind_last:
  assumes "ss \<noteq> []"
  shows "concat (map (map snd) (butlast ss @ [last ss @ [(x, n)]])) =
    concat (map (map snd) ss) @ [n]"
proof -
  from assms have "concat (map (map snd) ss) =
      concat (map (map snd) (butlast ss @ [last ss]))"
    by simp
  then show ?thesis
    by simp
qed

lemma concat_butlast:
  assumes "ss \<noteq> []"
  shows "concat (map f ss) = concat (map f (butlast ss)) @ f (last ss)"
proof -
  from assms have "concat (map f ss) = concat (map f (butlast ss @ [last ss]))"
    by simp
  then show ?thesis
    by simp
qed

lemma get_var_addr_inv:
  assumes "get_var_addr s x = Inr (r, s')" and "vm_inv s"
  shows "vm_inv s' \<and> memory s' = memory s \<and> (\<forall>a. r = Some a \<longrightarrow> a < next_mem_addr s')"
proof (cases "is_temp_var x")
  case True
  with assms show ?thesis by (simp add: get_var_addr_def)
next
  case False
  with assms(1) have ne: "scope_stack s \<noteq> []"
    by (auto simp: get_var_addr_def split: if_splits)
  from assms(2) have below: "\<forall>a \<in> set (bound_addrs s). a < next_mem_addr s"
    and dist: "distinct (bound_addrs s)" and len: "length (memory s) = 512"
    by (simp_all add: vm_inv_def list_all_iff)
  show ?thesis
  proof (cases "map_of (last (scope_stack s)) x")
    case (Some a)
    with False ne assms(1) have "r = Some a" and "s' = s"
      by (simp_all add: get_var_addr_def)
    moreover from Some ne have "a \<in> set (bound_addrs s)"
      unfolding bound_addrs_def by (rule bound_in_last)
    with below have "a < next_mem_addr s"
      by simp
    ultimately show ?thesis using assms(2) by simp
  next
    case None
    with False ne assms(1) have r: "r = Some (next_mem_addr s)"
      and s': "s' = s\<lparr>next_mem_addr := next_mem_addr s + 1,
          scope_stack := butlast (scope_stack s) @ [last (scope_stack s) @ [(x, next_mem_addr s)]]\<rparr>"
      by (simp_all add: get_var_addr_def Let_def)
    have b': "bound_addrs s' = bound_addrs s @ [next_mem_addr s]"
      using concat_bind_last [OF ne, of x "next_mem_addr s"] by (simp add: s' bound_addrs_def)
    from below have "next_mem_addr s \<notin> set (bound_addrs s)"
      by auto
    with dist b' have "distinct (bound_addrs s')"
      by simp
    moreover from below b' s' have "\<forall>a \<in> set (bound_addrs s'). a < next_mem_addr s'"
      by (auto simp: less_Suc_eq)
    moreover from s' len have "length (memory s') = 512" and "memory s' = memory s"
      by simp_all
    ultimately show ?thesis
      using r s' by (simp add: vm_inv_def list_all_iff)
  qed
qed

lemma vm_inv_memory:
  assumes "vm_inv s" and "length m = 512"
  shows "vm_inv (s\<lparr>memory := m\<rparr>)"
  using assms by (simp add: vm_inv_def bound_addrs_def)

lemma vm_inv_fields:
  "vm_inv (s\<lparr>registers := r\<rparr>) = vm_inv s"
  "vm_inv (s\<lparr>stack := st\<rparr>) = vm_inv s"
  "vm_inv (s\<lparr>output_lines := out\<rparr>) = vm_inv s"
  "vm_inv (s\<lparr>pc := p\<rparr>) = vm_inv s"
  "vm_inv (s\<lparr>sp := q\<rparr>) = vm_inv s"
  "vm_inv (s\<lparr>scope_stack := scope_stack s @ [[]]\<rparr>) = vm_inv s"
  by (simp_all add: vm_inv_def bound_addrs_def)

lemma eval_arg_inv:
  assumes "eval_arg s x = Inr (v, s')" and "vm_inv s"
  shows "vm_inv s'"
  using assms
  by (auto simp: eval_arg_def split: if_splits option.splits prod.splits
      elim!: sum_bind_InrE dest: get_var_addr_inv)

lemma set_var_inv:
  assumes "set_var s x v = Inr s'" and "vm_inv s"
  shows "vm_inv s'"
proof (cases "is_temp_var x")
  case True
  with assms show ?thesis
    by (auto simp: set_var_def list_set_def vm_inv_fields split: if_splits
        elim!: sum_bind_InrE)
next
  case False
  with assms(1) obtain r s1 where g: "get_var_addr s x = Inr (r, s1)"
    by (auto simp: set_var_def elim!: sum_bind_InrE)
  with assms(2) have inv: "vm_inv s1"
    by (auto dest: get_var_addr_inv)
  then have "length (memory s1) = 512"
    by (simp add: vm_inv_def)
  with False g assms(1) inv show ?thesis
    by (auto simp: set_var_def list_set_def split: if_splits option.splits
        elim!: sum_bind_InrE intro!: vm_inv_memory)
qed

lemma push_inv:
  assumes "push s v = Inr s'" and "vm_inv s"
  shows "vm_inv s'"
  using assms
  by (auto simp: push_def list_set_def vm_inv_fields split: if_splits elim!: sum_bind_InrE)

lemma pop_inv:
  assumes "pop s = Inr (v, s')" and "vm_inv s"
  shows "vm_inv s'"
  using assms
  by (auto simp: pop_def list_get_def vm_inv_fields split: if_splits elim!: sum_bind_InrE)

lemma pop_scope_inv:
  assumes "pop_scope s = Inr s'" and "vm_inv s"
  shows "vm_inv s'"
proof -
  from assms(1) have ne: "scope_stack s \<noteq> []"
    and s': "s' = s\<lparr>scope_stack := butlast (scope_stack s)\<rparr>"
    by (auto simp: pop_scope_def split: if_splits)
  from ne have "bound_addrs s = bound_addrs s' @ map snd (last (scope_stack s))"
    unfolding bound_addrs_def s' using concat_butlast [of "scope_stack s" "map snd"] by simp
  with assms(2) s' show ?thesis
    by (simp add: vm_inv_def)
qed

lemma advance_inv:
  assumes "advance s = Inr (Continue s')" and "vm_inv s"
  shows "vm_inv s'"
  using assms by (auto simp: advance_def vm_inv_fields)

lemma jump_inv:
  assumes "jump s l = Inr (Continue s')" and "vm_inv s"
  shows "vm_inv s'"
  using assms by (auto simp: jump_def vm_inv_fields elim!: sum_bind_InrE)

lemma call_jump_inv:
  assumes "jump (s\<lparr>scope_stack := scope_stack s @ [[]]\<rparr>) l = Inr (Continue s')" and "vm_inv s"
  shows "vm_inv s'"
  using assms jump_inv [of "s\<lparr>scope_stack := scope_stack s @ [[]]\<rparr>" l s']
  by (simp add: vm_inv_fields)

lemma print_advance_inv:
  assumes "advance (s\<lparr>output_lines := out\<rparr>) = Inr (Continue s')" and "vm_inv s"
  shows "vm_inv s'"
  using assms advance_inv [of "s\<lparr>output_lines := out\<rparr>" s']
  by (simp add: vm_inv_fields)

lemmas prim_inv = eval_arg_inv set_var_inv push_inv pop_inv pop_scope_inv advance_inv jump_inv
  call_jump_inv print_advance_inv

lemma exec_instr_inv:
  assumes "exec_instr s parts = Inr (Continue s')" and "vm_inv s"
  shows "vm_inv s'"
  using assms unfolding exec_instr_def
  apply (auto elim!: sum_bind_InrE split: if_splits prod.splits simp: vm_inv_fields)
  apply ((drule (1) prim_inv)+, assumption)+
  done

lemma step_inv:
  assumes "step s = Inr (Continue s')" and "vm_inv s"
  shows "vm_inv s'"
  using assms unfolding step_def
  by (auto elim!: sum_bind_InrE intro: exec_instr_inv)

lemma load_program_inv:
  assumes "load_program (VirtualHardware 512 16) code = Inr s"
  shows "vm_inv s"
  using assms
  by (auto simp: load_program_def VirtualHardware_def vm_inv_def bound_addrs_def
      split: sum.splits)

lemma reachable_inv:
  assumes "reachable code s"
  shows "vm_inv s"
  using assms
proof induction
  case (start code s)
  then show ?case by (simp add: load_program_inv vm_inv_fields)
next
  case (turn code s s')
  then show ?case by (blast intro: step_inv)
qed

lemma distinct_concat_nth:
  assumes "distinct (concat xss)" and "i < j" and "j < length xss"
    and "a \<in> set (xss ! i)" and "b \<in> set (xss ! j)"
  shows "a \<noteq> b"
  using assms
proof (induction xss arbitrary: i j)
  case Nil
  then show ?case by simp
next
  case (Cons xs xss)
  from Cons.prems(2) obtain j' where j: "j = Suc j'"
    by (cases j) auto
  show ?case
  proof (cases i)
    case 0
    with Cons.prems j have "a \<in> set xs" and "b \<in> set (concat xss)"
      by auto
    with Cons.prems(1) show ?thesis
      by auto
  next
    case (Suc i')
    with Cons.prems j show ?thesis
      using Cons.IH [of i' j'] by simp
  qed
qed

text \<open>
  \<open>turns n s\<close> is the machine after \<open>n\<close> turns of the loop of \<^verbatim>\<open>run\<close> from \<open>s\<close>, when
  each of them goes on to the next; \<open>started code\<close> is the machine the loop starts from.
\<close>

fun turns :: "nat \<Rightarrow> vm \<Rightarrow> vm option" where
  "turns 0 s = Some s"
| "turns (Suc n) s =
     (if pc s < int (length (program s)) then
        (case step s of Inr (Continue s') \<Rightarrow> turns n s' | _ \<Rightarrow> None)
      else None)"

definition started :: "string list \<Rightarrow> vm option" where
  "started code =
     (case load_program (VirtualHardware 512 16) code of
        Inl e \<Rightarrow> None
      | Inr s \<Rightarrow> Some (s\<lparr>pc := 0, sp := 0, output_lines := []\<rparr>))"

lemma reachable_started:
  assumes "started code = Some s"
  shows "reachable code s"
  using assms by (auto simp: started_def split: sum.splits intro: reachable.start)

lemma reachable_turns:
  assumes "reachable code s" and "turns n s = Some s'"
  shows "reachable code s'"
  using assms
proof (induction n arbitrary: s)
  case 0
  then show ?case by simp
next
  case (Suc n)
  from Suc.prems(2) obtain t where "pc s < int (length (program s))"
    and "step s = Inr (Continue t)" and "turns n t = Some s'"
    by (auto split: if_splits sum.splits outcome.splits)
  with Suc.prems(1) Suc.IH show ?case
    by (blast intro: reachable.turn)
qed

text \<open>
  These are the machines of \<^verbatim>\<open>execute(code)\<close>: from each of them the loop goes on to the
  result of \<open>execute code\<close>.
\<close>

lemma execute_reachable:
  assumes "reachable code s"
  shows "execute code = map_option (map_sum id output_lines) (run_loop s)"
  using assms
proof induction
  case (start code s)
  then show ?case
    by (simp add: execute_def run_def split: option.split sum.split)
next
  case (turn code s s')
  from turn.hyps(2,3) have "run_loop s = run_loop s'"
    by (subst run_loop.simps) simp
  with turn.IH show ?case
    by simp
qed


subsection \<open>The scope in which a name is resolved\<close>

lemma retval_is_var: "is_var ''_retval''"
  by code_simp

text \<open>
  C2, as stated, fails for \<^verbatim>\<open>_retval\<close>: \<^verbatim>\<open>get_var_addr\<close> treats it like every other
  name. In the program below \<^verbatim>\<open>g\<close> returns 7, which \<^verbatim>\<open>RET\<close> stores under
  \<^verbatim>\<open>_retval\<close> in the global scope. Then \<^verbatim>\<open>f\<close> is called and returns \<^verbatim>\<open>_retval\<close>:
  inside the call the name is bound afresh in the scope of \<^verbatim>\<open>f\<close>, to a new address
  that holds 0, so 0 is returned and printed. Resolved in the global scope, the name
  would give 7.
\<close>

theorem retval_counterexample:
  "execute [''JMP main'', ''LABEL g'', ''PARAM n'', ''RET 7'', ''LABEL f'', ''PARAM n'',
            ''RET _retval'', ''LABEL main'', ''PUSH 1'', ''CALL g'', ''PUSH 1'', ''CALL f'',
            ''PRINT _retval'', ''HALT'']
   = Some (Inr [''0''])"
  by code_simp

text \<open>
  A program that reads \<^verbatim>\<open>_retval\<close> inside a call: \<^verbatim>\<open>g\<close> returns 7, then \<^verbatim>\<open>f\<close> copies
  \<^verbatim>\<open>_retval\<close> to \<^verbatim>\<open>x\<close> and returns \<^verbatim>\<open>x\<close>. \<open>retval_state\<close> is the machine after
  twelve turns, about to execute \<^verbatim>\<open>RET x\<close> in \<^verbatim>\<open>f\<close>: the global scope binds
  \<^verbatim>\<open>_retval\<close> to address 1, which holds 7, and the scope of \<^verbatim>\<open>f\<close> binds it to address 3,
  which holds 0. \<open>retval_after\<close> is the machine after that \<^verbatim>\<open>RET\<close>.
\<close>

definition retval_code :: "string list" where
  "retval_code = [''JMP main'', ''LABEL g'', ''PARAM n'', ''RET 7'', ''LABEL f'', ''PARAM n'',
     ''MOV _retval x'', ''RET x'', ''LABEL main'', ''PUSH 1'', ''CALL g'', ''PUSH 1'', ''CALL f'',
     ''PRINT _retval'', ''HALT'']"

definition retval_state :: vm where
  "retval_state =
     \<lparr>memory = (replicate 512 0)[0 := 1, 1 := 7, 2 := 1], registers = replicate 16 0,
      stack = (replicate 16 0)[0 := 13, 1 := 1], pc = 7, sp = 1, bp = 0,
      labels = [(''g'', 1), (''f'', 4), (''main'', 8)], next_mem_addr = 5,
      scope_stack = [[(''_retval'', 1)], [(''n'', 2), (''_retval'', 3), (''x'', 4)]],
      program = retval_code, output_lines = []\<rparr>"

definition retval_after :: vm where
  "retval_after =
     \<lparr>memory = (replicate 512 0)[0 := 1, 1 := 0, 2 := 1], registers = replicate 16 0,
      stack = (replicate 16 0)[0 := 13, 1 := 1], pc = 13, sp = 0, bp = 0,
      labels = [(''g'', 1), (''f'', 4), (''main'', 8)], next_mem_addr = 5,
      scope_stack = [[(''_retval'', 1)]], program = retval_code, output_lines = []\<rparr>"

lemma retval_turns: "Option.bind (started retval_code) (turns 12) = Some retval_state"
  by code_simp

lemma reachable_retval_state: "reachable retval_code retval_state"
proof -
  from retval_turns obtain s where "started retval_code = Some s"
    and "turns 12 s = Some retval_state"
    by (cases "started retval_code") auto
  then show ?thesis
    by (blast intro: reachable_started reachable_turns)
qed

lemma retval_state_steps:
  "eval_arg retval_state ''x'' = Inr (0, retval_state)"
  "exec_instr retval_state [''RET'', ''x''] = Inr (Continue retval_after)"
  by code_simp+

text \<open>
  Evaluating an operand changes the current scope at most, and \<^verbatim>\<open>pop\<close> no scope.
\<close>

lemma eval_arg_scopes:
  assumes "eval_arg s v = Inr (val, s1)" and "scope_stack s = below @ [cur]"
  shows "\<exists>cur'. scope_stack s1 = below @ [cur']"
  using assms
  by (auto simp: eval_arg_def get_var_addr_def Let_def
      split: if_splits option.splits prod.splits elim!: sum_bind_InrE)

lemma pop_scopes:
  assumes "pop s = Inr (v, s')"
  shows "scope_stack s' = scope_stack s"
  using assms by (auto simp: pop_def split: if_splits elim!: sum_bind_InrE)

lemma ret_binds_in_caller:
  assumes ex: "exec_instr s [''RET'', y] = Inr (Continue s')"
    and ss: "scope_stack s = below @ [caller, callee]"
    and ev: "eval_arg s y = Inr (val, s1)"
  shows "\<exists>a. scope_stack s' =
           below @ [if map_of caller ''_retval'' = None then caller @ [(''_retval'', a)] else caller]
         \<and> map_of (last (scope_stack s')) ''_retval'' = Some a \<and> memory s' ! a = val"
proof -
  from ss have "scope_stack s = (below @ [caller]) @ [callee]"
    by simp
  with ev obtain callee' where s1: "scope_stack s1 = (below @ [caller]) @ [callee']"
    by (blast dest: eval_arg_scopes)
  from ex ev obtain ra s2 s3 s4 where p: "pop s1 = Inr (ra, s2)"
    and ps: "pop_scope s2 = Inr s3" and sv: "set_var s3 ''_retval'' val = Inr s4"
    and s': "s' = s4\<lparr>pc := ra\<rparr>"
    by (auto simp: exec_RET elim!: sum_bind_InrE)
  from p s1 have "scope_stack s2 = (below @ [caller]) @ [callee']"
    by (simp add: pop_scopes)
  with ps have s3: "scope_stack s3 = below @ [caller]"
    by (auto simp: pop_scope_def split: if_splits)
  then have ne: "scope_stack s3 \<noteq> []" and l: "last (scope_stack s3) = caller"
    and b: "butlast (scope_stack s3) = below"
    by simp_all
  show ?thesis
  proof (cases "map_of caller ''_retval''")
    case None
    with sv ne l b have "scope_stack s4 = below @ [caller @ [(''_retval'', next_mem_addr s3)]]"
      and "memory s4 = (memory s3)[next_mem_addr s3 := val]"
      and "next_mem_addr s3 < length (memory s3)"
      by (auto simp: set_var_var retval_is_var list_set_def split: if_splits
          elim!: sum_bind_InrE)
    with None s' show ?thesis
      by (auto simp: map_of_append map_add_def)
  next
    case (Some a)
    with sv ne l b have "scope_stack s4 = below @ [caller]"
      and "memory s4 = (memory s3)[a := val]" and "a < length (memory s3)"
      by (auto simp: set_var_var retval_is_var list_set_def split: if_splits
          elim!: sum_bind_InrE)
    with Some s' show ?thesis
      by auto
  qed
qed

lemma scopes_disjoint:
  assumes "reachable code s" and "i < j" and "j < length (scope_stack s)"
    and "map_of (scope_stack s ! i) x = Some a" and "map_of (scope_stack s ! j) y = Some b"
  shows "a \<noteq> b"
proof -
  from assms(1) have "distinct (concat (map (map snd) (scope_stack s)))"
    using reachable_inv [of code s] by (simp add: vm_inv_def bound_addrs_def)
  moreover from assms(2,3,4) have "a \<in> set (map (map snd) (scope_stack s) ! i)"
    by (force dest: map_of_SomeD)
  moreover from assms(3,5) have "b \<in> set (map (map snd) (scope_stack s) ! j)"
    by (force dest: map_of_SomeD)
  ultimately show ?thesis
    using assms(2,3) distinct_concat_nth [of "map (map snd) (scope_stack s)" i j a b] by simp
qed


text \<open>
  C2, amended. Every token that is neither an integer literal nor a temporary, the
  token \<^verbatim>\<open>_retval\<close> among them, is resolved in the current scope, the last of the scope
  stack, for reading and for writing: to the address it has there, or else to the next
  free address, which is then bound in that scope. The scopes below are neither read nor
  changed. \<^verbatim>\<open>RET\<close> pops the scope of the callee before it binds \<^verbatim>\<open>_retval\<close>: the
  value returned is stored under \<^verbatim>\<open>_retval\<close> in the scope of the caller, at the address
  the name has there or at a new one, and the scopes below the caller's stay as they
  are. In every machine of a run, the addresses bound in two different scopes of the
  scope stack are different: the address of \<^verbatim>\<open>_retval\<close> differs from scope to scope.
\<close>

theorem names_resolve_in_current_scope:
  "(is_var x \<and> scope_stack s = below @ [cur] \<longrightarrow>
      eval_arg s x =
        (case map_of cur x of
           Some a \<Rightarrow> sum_bind (list_get (memory s) a) (\<lambda>v. Inr (v, s))
         | None \<Rightarrow>
             sum_bind (list_get (memory s) (next_mem_addr s)) (\<lambda>v.
               Inr (v, s\<lparr>next_mem_addr := next_mem_addr s + 1,
                          scope_stack := below @ [cur @ [(x, next_mem_addr s)]]\<rparr>)))
      \<and> set_var s x v =
        (case map_of cur x of
           Some a \<Rightarrow> sum_bind (list_set (memory s) a v) (\<lambda>m. Inr (s\<lparr>memory := m\<rparr>))
         | None \<Rightarrow>
             sum_bind (list_set (memory s) (next_mem_addr s) v) (\<lambda>m.
               Inr (s\<lparr>next_mem_addr := next_mem_addr s + 1,
                       scope_stack := below @ [cur @ [(x, next_mem_addr s)]],
                       memory := m\<rparr>))))
   \<and> is_var ''_retval''
   \<and> (exec_instr t [''RET'', y] = Inr (Continue t') \<and> scope_stack t = lower @ [caller, callee]
        \<and> eval_arg t y = Inr (val, t1) \<longrightarrow>
      (\<exists>a. scope_stack t' =
              lower @ [if map_of caller ''_retval'' = None then caller @ [(''_retval'', a)]
                       else caller]
           \<and> map_of (last (scope_stack t')) ''_retval'' = Some a \<and> memory t' ! a = val))
   \<and> (reachable code u \<and> i < j \<and> j < length (scope_stack u)
        \<and> map_of (scope_stack u ! i) p = Some c \<and> map_of (scope_stack u ! j) q = Some d \<longrightarrow>
      c \<noteq> d)"
proof (intro conjI impI)
  assume "is_var x \<and> scope_stack s = below @ [cur]"
  then show "eval_arg s x =
        (case map_of cur x of
           Some a \<Rightarrow> sum_bind (list_get (memory s) a) (\<lambda>v. Inr (v, s))
         | None \<Rightarrow>
             sum_bind (list_get (memory s) (next_mem_addr s)) (\<lambda>v.
               Inr (v, s\<lparr>next_mem_addr := next_mem_addr s + 1,
                          scope_stack := below @ [cur @ [(x, next_mem_addr s)]]\<rparr>)))"
    by (simp add: eval_arg_var split: option.split)
next
  assume "is_var x \<and> scope_stack s = below @ [cur]"
  then show "set_var s x v =
        (case map_of cur x of
           Some a \<Rightarrow> sum_bind (list_set (memory s) a v) (\<lambda>m. Inr (s\<lparr>memory := m\<rparr>))
         | None \<Rightarrow>
             sum_bind (list_set (memory s) (next_mem_addr s) v) (\<lambda>m.
               Inr (s\<lparr>next_mem_addr := next_mem_addr s + 1,
                       scope_stack := below @ [cur @ [(x, next_mem_addr s)]],
                       memory := m\<rparr>)))"
    by (simp add: set_var_var split: option.split)
next
  show "is_var ''_retval''"
    by (rule retval_is_var)
next
  assume "exec_instr t [''RET'', y] = Inr (Continue t') \<and> scope_stack t = lower @ [caller, callee]
        \<and> eval_arg t y = Inr (val, t1)"
  then show "\<exists>a. scope_stack t' =
              lower @ [if map_of caller ''_retval'' = None then caller @ [(''_retval'', a)]
                       else caller]
           \<and> map_of (last (scope_stack t')) ''_retval'' = Some a \<and> memory t' ! a = val"
    using ret_binds_in_caller [of t y t' lower caller callee val t1] by simp
next
  assume "reachable code u \<and> i < j \<and> j < length (scope_stack u)
        \<and> map_of (scope_stack u ! i) p = Some c \<and> map_of (scope_stack u ! j) q = Some d"
  then show "c \<noteq> d"
    using scopes_disjoint [of code u i j p c q d] by simp
qed

theorem names_resolve_in_current_scope_witness:
  "is_var ''_retval''
   \<and> scope_stack retval_state = [[(''_retval'', 1)]] @ [[(''n'', 2), (''_retval'', 3), (''x'', 4)]]
   \<and> eval_arg retval_state ''_retval'' = Inr (0, retval_state)
   \<and> exec_instr retval_state [''RET'', ''x''] = Inr (Continue retval_after)
   \<and> eval_arg retval_state ''x'' = Inr (0, retval_state)
   \<and> scope_stack retval_after = [[(''_retval'', 1)]] \<and> memory retval_after ! 1 = 0
   \<and> reachable retval_code retval_state
   \<and> map_of (scope_stack retval_state ! 0) ''_retval'' = Some 1
   \<and> map_of (scope_stack retval_state ! 1) ''_retval'' = Some 3 \<and> (1::nat) \<noteq> 3"
proof -
  note part1 = names_resolve_in_current_scope [THEN conjunct1, rule_format]
  note part3 = names_resolve_in_current_scope
    [THEN conjunct2, THEN conjunct2, THEN conjunct1, rule_format]
  note part4 = names_resolve_in_current_scope
    [THEN conjunct2, THEN conjunct2, THEN conjunct2, rule_format]
  have ss: "scope_stack retval_state =
      [[(''_retval'', 1)]] @ [[(''n'', 2), (''_retval'', 3), (''x'', 4)]]"
    by (simp add: retval_state_def)
  have ss': "scope_stack retval_state =
      [] @ [[(''_retval'', 1)], [(''n'', 2), (''_retval'', 3), (''x'', 4)]]"
    by (simp add: retval_state_def)
  have m3: "list_get (memory retval_state) 3 = Inr 0"
    by (simp add: retval_state_def list_get_def)
  have "eval_arg retval_state ''_retval'' =
      (case map_of [(''n'', 2), (''_retval'', 3), (''x'', 4)] ''_retval'' of
         Some a \<Rightarrow> sum_bind (list_get (memory retval_state) a) (\<lambda>v. Inr (v, retval_state))
       | None \<Rightarrow>
           sum_bind (list_get (memory retval_state) (next_mem_addr retval_state)) (\<lambda>v.
             Inr (v, retval_state\<lparr>next_mem_addr := next_mem_addr retval_state + 1,
                    scope_stack := [[(''_retval'', 1)]]
                      @ [[(''n'', 2), (''_retval'', 3), (''x'', 4)]
                          @ [(''_retval'', next_mem_addr retval_state)]]\<rparr>)))"
    by (rule part1 [OF conjI [OF retval_is_var ss], THEN conjunct1])
  with m3 have one: "eval_arg retval_state ''_retval'' = Inr (0, retval_state)"
    by simp
  have "\<exists>a. scope_stack retval_after =
      [] @ [if map_of [(''_retval'', 1::nat)] ''_retval'' = None
            then [(''_retval'', 1)] @ [(''_retval'', a)] else [(''_retval'', 1)]]
      \<and> map_of (last (scope_stack retval_after)) ''_retval'' = Some a
      \<and> memory retval_after ! a = 0"
    by (rule part3 [OF conjI [OF retval_state_steps(2) conjI [OF ss' retval_state_steps(1)]]])
  then have three: "scope_stack retval_after = [[(''_retval'', 1)]] \<and> memory retval_after ! 1 = 0"
    by auto
  have b: "map_of (scope_stack retval_state ! 0) ''_retval'' = Some 1"
    "map_of (scope_stack retval_state ! 1) ''_retval'' = Some 3"
    "(0::nat) < 1" "1 < length (scope_stack retval_state)"
    by (simp_all add: retval_state_def)
  have four: "(1::nat) \<noteq> 3"
    by (rule part4 [OF conjI [OF reachable_retval_state conjI [OF b(3) conjI [OF b(4)
      conjI [OF b(1) b(2)]]]]])
  from retval_is_var ss one retval_state_steps three reachable_retval_state b four
  show ?thesis
    by blast
qed

subsection \<open>Expressions with a plus sign\<close>

lemma split_on_absent: "c \<notin> set r \<Longrightarrow> split_on c r = [r]"
  by (induction r) auto

lemma split_on_once: "c \<notin> set l \<Longrightarrow> c \<notin> set r \<Longrightarrow> split_on c (l @ c # r) = [l, r]"
  by (induction l) (auto simp: split_on_absent)

text \<open>
  C3, as stated, fails. A text with two plus signs is split into three pieces, and the
  assignment of the pieces to two names raises \<^verbatim>\<open>ValueError\<close>. And the text
  \<^verbatim>\<open>a - b + c\<close> is split at its plus sign into \<^verbatim>\<open>a - b\<close> and \<^verbatim>\<open>c\<close>, so that the
  code subtracts first and adds then: with 10, 3 and 2 for the three variables the
  program prints 9, which is \<open>(10 - 3) + 2\<close>, not \<open>10 - (3 + 2)\<close>.
\<close>

theorem compile_expr_plus_counterexample:
  "compile_expr {} 0 ''a + b + c'' = Inl too_many
   \<and> compile [''a = 10'', ''b = 3'', ''c = 2'', ''print a - b + c'']
       = Inr [''JMP main'', ''LABEL main'', ''MOV 10 a'', ''MOV 3 b'', ''MOV 2 c'',
              ''SUB a b tmp1'', ''ADD tmp1 c tmp2'', ''PRINT tmp2'', ''HALT'']
   \<and> execute [''JMP main'', ''LABEL main'', ''MOV 10 a'', ''MOV 3 b'', ''MOV 2 c'',
              ''SUB a b tmp1'', ''ADD tmp1 c tmp2'', ''PRINT tmp2'', ''HALT'']
       = Some (Inr [''9''])"
  by code_simp

text \<open>
  C3, amended. For every expression text that is not a function call and contains
  exactly one plus sign, \<^verbatim>\<open>compile_expr\<close> splits the text at that sign, compiles the
  left part and then the right part, and emits \<^verbatim>\<open>ADD\<close> of the two locations into a
  fresh temporary, however many minus signs the text has. In particular
  \<^verbatim>\<open>a - b + c\<close> compiles to \<^verbatim>\<open>SUB a b tmp1\<close>, \<^verbatim>\<open>ADD tmp1 c tmp2\<close>.
\<close>

theorem compile_expr_one_plus:
  assumes "\<not> (2 \<le> length (split_ws (strip e)) \<and> hd (split_ws (strip e)) \<in> fnames)"
    and "strip e = l @ CHR ''+'' # r"
    and "CHR ''+'' \<notin> set l" and "CHR ''+'' \<notin> set r"
  shows "compile_expr fnames counter e =
     (case compile_expr fnames counter (strip l) of
        Inl err \<Rightarrow> Inl err
      | Inr (ta, ca, c1) \<Rightarrow>
          (case compile_expr fnames c1 (strip r) of
             Inl err \<Rightarrow> Inl err
           | Inr (tb, cb, c2) \<Rightarrow>
               Inr (fst (temp c2),
                    ca @ cb @ [''ADD '' @ ta @ '' '' @ tb @ '' '' @ fst (temp c2)],
                    snd (temp c2))))"
proof -
  from assms(1) have nocall:
    "(2 \<le> length (split_ws (strip e)) \<and> hd (split_ws (strip e)) \<in> fnames) = False"
    by simp
  from assms(2) have plus: "(CHR ''+'' \<in> set (strip e)) = True"
    by simp
  from assms(2-4) have two: "unpack2 (split_on CHR ''+'' (strip e)) = Inr (l, r)"
    by (simp add: split_on_once)
  have "compile_expr fnames counter e =
     (case compile_expr fnames counter (strip l) of
        Inl err \<Rightarrow> Inl err
      | Inr (ta, ca, c1) \<Rightarrow>
          (case compile_expr fnames c1 (strip r) of
             Inl err \<Rightarrow> Inl err
           | Inr (tb, cb, c2) \<Rightarrow>
               (let (t, c3) = temp c2 in
                Inr (t, ca @ cb @ [''ADD '' @ ta @ '' '' @ tb @ '' '' @ t], c3))))"
    by (subst compile_expr.simps)
       (simp only: Let_def nocall plus two if_False if_True sum.case prod.case)
  then show ?thesis
    by (simp only: Let_def case_prod_beta)
qed

lemma plus_example:
  "strip ''a - b + c'' = ''a - b '' @ CHR ''+'' # '' c''"
  "split_ws (strip ''a - b + c'') = [''a'', ''-'', ''b'', ''+'', ''c'']"
  "compile_expr {} 0 (strip ''a - b '') = Inr (''tmp1'', [''SUB a b tmp1''], 1)"
  "compile_expr {} (Suc 0) (strip '' c'') = Inr (''c'', [], Suc 0)"
  "temp (Suc 0) = (''tmp2'', 2)"
  by code_simp+

theorem compile_expr_one_plus_witness:
  "compile_expr {} 0 ''a - b + c'' = Inr (''tmp2'', [''SUB a b tmp1'', ''ADD tmp1 c tmp2''], 2)"
  using compile_expr_one_plus [of "''a - b + c''" "{}" "''a - b ''" "'' c''" 0]
  by (simp add: plus_example)

subsection \<open>Independence of earlier runs\<close>

text \<open>
  What outlives a call in the Python process: the two globals of the module,
  \<^verbatim>\<open>function_names\<close> and \<^verbatim>\<open>counter\<close>, and the \<^verbatim>\<open>VirtualHardware\<close> objects built so
  far, each in the state its last method call left it in. A call of \<^verbatim>\<open>execute\<close> starts
  in one such state and leaves another.
\<close>

record process =
  global_function_names :: "string set"
  global_counter :: nat
  machines :: "vm list"

text \<open>\<^verbatim>\<open>VirtualHardware()\<close>: a new object, after those that exist.\<close>

definition new_machine :: "process \<Rightarrow> nat \<times> process" where
  "new_machine p = (length (machines p), p\<lparr>machines := machines p @ [VirtualHardware 512 16]\<rparr>)"

text \<open>
  \<^verbatim>\<open>execute(code)\<close> as a call in a process: \<^verbatim>\<open>vm = VirtualHardware()\<close>,
  \<^verbatim>\<open>vm.load_program(code)\<close>, \<^verbatim>\<open>return vm.run()\<close>. A call that returns gives the output
  and the process it leaves, in which the new object is as \<^verbatim>\<open>run\<close> left it; a call that
  raises gives the exception; a call that never returns gives \<open>None\<close>.
\<close>

definition execute_in :: "process \<Rightarrow> string list \<Rightarrow> (error + string list \<times> process) option" where
  "execute_in p code =
     (case new_machine p of (v, p1) \<Rightarrow>
        (case load_program (machines p1 ! v) code of
           Inl e \<Rightarrow> Some (Inl e)
         | Inr s \<Rightarrow>
             (case run_loop (s\<lparr>pc := 0, sp := 0, output_lines := []\<rparr>) of
                None \<Rightarrow> None
              | Some (Inl e) \<Rightarrow> Some (Inl e)
              | Some (Inr s') \<Rightarrow>
                  Some (Inr (output_lines s', p1\<lparr>machines := (machines p1)[v := s']\<rparr>)))))"

text \<open>
  For contrast, two runs of one object: \<^verbatim>\<open>vm.load_program(code); vm.run(); vm.run()\<close>.
  \<^verbatim>\<open>run\<close> resets the two pointers and the output only, so the second run starts from the
  memory, the scopes and the address counter the first run left.
\<close>

definition run_twice :: "vm \<Rightarrow> string list \<Rightarrow> (error + string list) option" where
  "run_twice s code =
     (case load_program s code of
        Inl e \<Rightarrow> Some (Inl e)
      | Inr s0 \<Rightarrow>
          (case run_loop (s0\<lparr>pc := 0, sp := 0, output_lines := []\<rparr>) of
             None \<Rightarrow> None
           | Some (Inl e) \<Rightarrow> Some (Inl e)
           | Some (Inr s1) \<Rightarrow> run s1))"

definition reuse_code :: "string list" where
  "reuse_code = [''PRINT x'', ''MOV 5 x'']"

definition used_machine :: vm where
  "used_machine =
     \<lparr>memory = (replicate 512 0)[0 := 5], registers = replicate 16 0, stack = replicate 16 0,
      pc = 2, sp = 0, bp = 0, labels = [], next_mem_addr = 1, scope_stack = [[(''x'', 0)]],
      program = reuse_code, output_lines = [''0'']\<rparr>"

definition idle_process :: process where
  "idle_process = \<lparr>global_function_names = {}, global_counter = 0, machines = []\<rparr>"

definition used_process :: process where
  "used_process = \<lparr>global_function_names = {}, global_counter = 0, machines = [used_machine]\<rparr>"

text \<open>
  The second run of one object prints what the first run stored: the reset of \<^verbatim>\<open>run\<close>
  alone does not make a run independent of the one before.
\<close>

lemma run_twice_differs:
  "execute reuse_code = Some (Inr [''0''])"
  "run_twice (VirtualHardware 512 16) reuse_code = Some (Inr [''5''])"
  by code_simp+

lemma execute_in_idle: "execute_in idle_process reuse_code = Some (Inr ([''0''], used_process))"
  by code_simp

lemma execute_in_result: "map_option (map_sum id fst) (execute_in p code) = execute code"
  by (simp add: execute_in_def new_machine_def execute_def run_def
      split: sum.split option.split)

lemma execute_in_process:
  assumes "execute_in p code = Some (Inr (out, p'))"
  shows "global_function_names p' = global_function_names p"
    and "global_counter p' = global_counter p"
    and "butlast (machines p') = machines p"
  using assms
  by (auto simp: execute_in_def new_machine_def split: sum.splits option.splits)

lemma execute_in_again:
  assumes "execute_in p code = Some (Inr (out, p'))"
  shows "\<exists>p''. execute_in q code = Some (Inr (out, p''))"
proof -
  have "map_option (map_sum id fst) (execute_in q code) =
      map_option (map_sum id fst) (execute_in p code)"
    by (simp add: execute_in_result)
  with assms show ?thesis
    by (cases "execute_in q code"; cases "the (execute_in q code)") auto
qed

text \<open>
  C8. In whatever state the process is, with any values of the globals and any objects
  left by earlier calls, a call of \<^verbatim>\<open>execute\<close> on \<open>code\<close> has the result of \<open>execute code\<close>:
  the same output, the same exception, or no return. So two calls give identical
  results, from two arbitrary states and one after the other. A call that returns leaves
  the globals and the earlier objects as they were: it adds its own object and shares
  nothing else with the calls that follow.
\<close>

theorem execute_twice_same:
  "map_option (map_sum id fst) (execute_in p code) = execute code
   \<and> map_option (map_sum id fst) (execute_in p code) =
       map_option (map_sum id fst) (execute_in q code)
   \<and> (execute_in p code = Some (Inr (out, p')) \<longrightarrow>
        (\<exists>p''. execute_in p' code = Some (Inr (out, p'')))
        \<and> global_function_names p' = global_function_names p
        \<and> global_counter p' = global_counter p
        \<and> butlast (machines p') = machines p)"
  using execute_in_again [of p code out p' p'] execute_in_process [of p code out p']
  by (simp add: execute_in_result)

theorem execute_twice_same_witness:
  "execute_in idle_process reuse_code = Some (Inr ([''0''], used_process))
   \<and> (\<exists>p''. execute_in used_process reuse_code = Some (Inr ([''0''], p'')))"
  using execute_twice_same [of idle_process reuse_code idle_process "[''0'']" used_process]
  by (simp add: execute_in_idle)

subsection \<open>The lowering of conditionals\<close>

text \<open>
  The lowering of \<^verbatim>\<open>If\<close> as the specification words it: the condition is split at
  the first \<^verbatim>\<open><\<close>, both sides are compiled, a fresh label is taken, and the code is
  the code of the left side, the code of the right side, the jump, the body, the label.
\<close>

definition spec_compile_if ::
  "string set \<Rightarrow> nat \<Rightarrow> string \<Rightarrow> stmt list \<Rightarrow> error + (string list \<times> nat)" where
  "spec_compile_if fnames counter cond body =
     (let left = takeWhile (\<lambda>c. c \<noteq> CHR ''<'') cond;
          right = drop 1 (dropWhile (\<lambda>c. c \<noteq> CHR ''<'') cond)
      in case compile_expr fnames counter left of
           Inl e \<Rightarrow> Inl e
         | Inr (leftloc, left_code, c1) \<Rightarrow>
             (case compile_expr fnames c1 right of
                Inl e \<Rightarrow> Inl e
              | Inr (rightloc, right_code, c2) \<Rightarrow>
                  (case compile_stmts fnames (snd (temp c2)) body of
                     Inl e \<Rightarrow> Inl e
                   | Inr (body_code, c3) \<Rightarrow>
                       Inr (left_code @ right_code
                              @ [''JGE '' @ leftloc @ '' 2 '' @ fst (temp c2) @ ''_end'']
                              @ body_code
                              @ [''LABEL '' @ fst (temp c2) @ ''_end''], c3))))"

declare compile_stmt.simps [simp del] compile_stmts.simps [simp del]

text \<open>
  C4, as stated, fails: the right side of the condition is never compiled. The source
  keeps the part before the \<^verbatim>\<open><\<close> and drops the other (\<^verbatim>\<open>cond, _ = ...\<close>). For the
  condition \<^verbatim>\<open>n < a + b\<close> the code generator emits the jump alone, where the rule of
  the specification has the addition in front of it and another temporary in the label.
\<close>

theorem if_lowering_counterexample:
  "compile_stmt {} 0 (If ''n < a + b'' [Return ''n''])
     = Inr ([''JGE n 2 tmp1_end'', ''RET n'', ''LABEL tmp1_end''], 1)
   \<and> spec_compile_if {} 0 ''n < a + b'' [Return ''n'']
     = Inr ([''ADD a b tmp1'', ''JGE n 2 tmp2_end'', ''RET n'', ''LABEL tmp2_end''], 2)"
  by code_simp

text \<open>
  C4, amended. For every \<^verbatim>\<open>If\<close> whose condition has exactly one \<^verbatim>\<open><\<close>, code
  generation compiles the part before it, takes a fresh label, and emits the code of
  that part, \<^verbatim>\<open>JGE\<close> of its location against the literal 2 to the label, the
  compiled body, and the label. The part after the \<^verbatim>\<open><\<close> is not compiled and has no
  influence on the code: the same statement with nothing after the \<^verbatim>\<open><\<close> compiles to
  the same.
\<close>

theorem if_lowering:
  assumes "cond = l @ CHR ''<'' # r"
    and "CHR ''<'' \<notin> set l" and "CHR ''<'' \<notin> set r"
  shows "compile_stmt fnames counter (If cond body) =
     (case compile_expr fnames counter (strip l) of
        Inl e \<Rightarrow> Inl e
      | Inr (t, code, c1) \<Rightarrow>
          (case compile_stmts fnames (c1 + 1) body of
             Inl e \<Rightarrow> Inl e
           | Inr (body_code, c3) \<Rightarrow>
               Inr (code @ [''JGE '' @ t @ '' 2 tmp'' @ str_nat (c1 + 1) @ ''_end'']
                      @ body_code @ [''LABEL tmp'' @ str_nat (c1 + 1) @ ''_end''], c3)))
     \<and> compile_stmt fnames counter (If cond body)
         = compile_stmt fnames counter (If (l @ ''<'') body)"
proof -
  from assms have "unpack2 (split_on CHR ''<'' cond) = Inr (l, r)"
    by (simp add: split_on_once)
  moreover from assms(2) have "unpack2 (split_on CHR ''<'' (l @ ''<'')) = Inr (l, [])"
    using split_on_once [of "CHR ''<''" l "[]"] by simp
  ultimately show ?thesis
    by (simp add: compile_stmt.simps temp_def split: sum.split prod.split)
qed

lemma if_example:
  "compile_expr {} 0 (strip ''n '') = Inr (''n'', [], 0)"
  "compile_stmts {} (Suc 0) [Return ''n''] = Inr ([''RET n''], Suc 0)"
  "str_nat (Suc 0) = ''1''"
  by code_simp+

theorem if_lowering_witness:
  "compile_stmt {} 0 (If ''n < a + b'' [Return ''n''])
     = Inr ([''JGE n 2 tmp1_end'', ''RET n'', ''LABEL tmp1_end''], 1)
   \<and> compile_stmt {} 0 (If ''n < a + b'' [Return ''n''])
     = compile_stmt {} 0 (If ''n <'' [Return ''n''])"
  using if_lowering [of "''n < a + b''" "''n ''" "'' a + b''" "{}" 0 "[Return ''n'']"]
  by (auto simp: if_example)

subsection \<open>The layout of the assembly\<close>

text \<open>
  What \<^verbatim>\<open>compile_all\<close> makes of one top-level item: a \<^verbatim>\<open>def\<close> is compiled by
  \<^verbatim>\<open>compile_fn\<close>; an assignment, a \<^verbatim>\<open>print\<close> and a \<^verbatim>\<open>for\<close> by \<^verbatim>\<open>compile_stmt\<close>;
  for an \<^verbatim>\<open>if\<close> and a \<^verbatim>\<open>return\<close> nothing is emitted and no temporary is used.
  \<open>compile_each\<close> does this for the items in their order, with one counter, and
  lists the blocks of code, each marked as a function or not.
\<close>

fun is_def :: "stmt \<Rightarrow> bool" where
  "is_def (Def name arg body) = True"
| "is_def s = False"

fun compile_item :: "string set \<Rightarrow> nat \<Rightarrow> stmt \<Rightarrow> error + (string list \<times> nat)" where
  "compile_item fnames counter (Def name arg body) = compile_fn fnames counter name arg body"
| "compile_item fnames counter (If cond body) = Inr ([], counter)"
| "compile_item fnames counter (Return expr) = Inr ([], counter)"
| "compile_item fnames counter s = compile_stmt fnames counter s"

fun compile_each ::
  "string set \<Rightarrow> nat \<Rightarrow> stmt list \<Rightarrow> error + ((bool \<times> string list) list \<times> nat)" where
  "compile_each fnames counter [] = Inr ([], counter)"
| "compile_each fnames counter (s # ss) =
     (case compile_item fnames counter s of
        Inl e \<Rightarrow> Inl e
      | Inr (code, c1) \<Rightarrow>
          (case compile_each fnames c1 ss of
             Inl e \<Rightarrow> Inl e
           | Inr (blocks, c2) \<Rightarrow> Inr ((is_def s, code) # blocks, c2)))"

definition functions_block :: "(bool \<times> string list) list \<Rightarrow> string list" where
  "functions_block blocks = concat (map snd (filter fst blocks))"

definition main_block :: "(bool \<times> string list) list \<Rightarrow> string list" where
  "main_block blocks = concat (map snd (filter (\<lambda>b. \<not> fst b) blocks))"

lemma compile_items_blocks:
  "compile_items fnames ast (code, main_code, counter) =
     (case compile_each fnames counter ast of
        Inl e \<Rightarrow> Inl e
      | Inr (blocks, c') \<Rightarrow>
          Inr (code @ functions_block blocks, main_code @ main_block blocks, c'))"
proof (induction ast arbitrary: code main_code counter)
  case Nil
  show ?case by (simp add: functions_block_def main_block_def)
next
  case (Cons s ss)
  show ?case
  proof (cases s)
    case (Def name arg body)
    then show ?thesis
      by (simp add: Cons.IH functions_block_def main_block_def split: sum.split prod.split)
  next
    case (If cond body)
    then show ?thesis
      by (simp add: Cons.IH functions_block_def main_block_def split: sum.split prod.split)
  next
    case (For v f t b)
    then show ?thesis
      by (simp add: Cons.IH functions_block_def main_block_def split: sum.split prod.split)
  next
    case (Return e)
    then show ?thesis
      by (simp add: Cons.IH functions_block_def main_block_def split: sum.split prod.split)
  next
    case (Print e)
    then show ?thesis
      by (simp add: Cons.IH functions_block_def main_block_def split: sum.split prod.split)
  next
    case (Assign v e)
    then show ?thesis
      by (simp add: Cons.IH functions_block_def main_block_def split: sum.split prod.split)
  qed
qed

lemma empty_program:
  "compile [] = Inr [''JMP main'', ''LABEL main'', ''HALT'']"
  "execute [''JMP main'', ''LABEL main'', ''HALT''] = Some (Inr [])"
  by code_simp+

text \<open>
  C5, as stated, fails: not every top-level statement that is no \<^verbatim>\<open>def\<close> reaches the
  main block. \<^verbatim>\<open>compile_all\<close> compiles an item of type \<^verbatim>\<open>assign\<close>, \<^verbatim>\<open>print\<close> or
  \<^verbatim>\<open>for\<close> and has no branch for the others. A top-level \<^verbatim>\<open>return 1\<close>, which
  \<^verbatim>\<open>compile_stmt\<close> would turn into \<^verbatim>\<open>RET 1\<close>, leaves the main block empty, and so
  does a top-level \<^verbatim>\<open>if\<close> with its body.
\<close>

theorem compile_all_counterexample:
  "compile_all {} 0 [Return ''1''] = Inr ([''JMP main'', ''LABEL main'', ''HALT''], 0)
   \<and> compile_stmt {} 0 (Return ''1'') = Inr ([''RET 1''], 0)
   \<and> compile [''if x < 2'', ''print 1'', ''end''] = Inr [''JMP main'', ''LABEL main'', ''HALT'']"
  by code_simp

text \<open>
  C5, amended. \<^verbatim>\<open>compile_all\<close> goes through the top-level statements once, in
  source order and with one counter of temporaries. Every \<^verbatim>\<open>Def\<close> is compiled into
  the functions block and every \<^verbatim>\<open>Assign\<close>, \<^verbatim>\<open>Print\<close> and \<^verbatim>\<open>For\<close> into the main
  block; a top-level \<^verbatim>\<open>If\<close> or \<^verbatim>\<open>Return\<close> is skipped. The result is
  \<^verbatim>\<open>JMP main\<close>, the functions block, \<^verbatim>\<open>LABEL main\<close>, the main block, \<^verbatim>\<open>HALT\<close>.
  A program with no statements compiles to the three instructions alone, and they
  execute with an empty output.
\<close>

theorem compile_all_layout:
  "compile_all fnames counter ast =
     (case compile_each fnames counter ast of
        Inl e \<Rightarrow> Inl e
      | Inr (blocks, c') \<Rightarrow>
          Inr ([''JMP main''] @ functions_block blocks @ [''LABEL main''] @ main_block blocks
                 @ [''HALT''], c'))
   \<and> compile [] = Inr [''JMP main'', ''LABEL main'', ''HALT'']
   \<and> execute [''JMP main'', ''LABEL main'', ''HALT''] = Some (Inr [])"
  by (simp add: compile_all_def compile_items_blocks empty_program split: sum.split prod.split)

lemma layout_example:
  "compile_each {''f''} 0 [Print ''f 1'', Def ''f'' ''n'' [Return ''n''], If ''x < 2'' [Print ''1'']]
   = Inr ([(False, [''PUSH 1'', ''CALL f'', ''MOV _retval tmp1'', ''PRINT tmp1'']),
           (True, [''LABEL f'', ''PARAM n'', ''RET n'']),
           (False, [])], 1)"
  by code_simp

theorem compile_all_layout_witness:
  "compile_all {''f''} 0 [Print ''f 1'', Def ''f'' ''n'' [Return ''n''], If ''x < 2'' [Print ''1'']]
   = Inr ([''JMP main'', ''LABEL f'', ''PARAM n'', ''RET n'', ''LABEL main'',
           ''PUSH 1'', ''CALL f'', ''MOV _retval tmp1'', ''PRINT tmp1'', ''HALT''], 1)"
  using compile_all_layout [of "{''f''}" 0
      "[Print ''f 1'', Def ''f'' ''n'' [Return ''n''], If ''x < 2'' [Print ''1'']]"]
  by (simp add: layout_example functions_block_def main_block_def del: compile_each.simps)

subsection \<open>Blocks that are not closed\<close>

text \<open>
  The form of a line, by the tests of \<^verbatim>\<open>parse\<close> in their order: one of the three that
  open a block, one of the three statements without a body, or \<^verbatim>\<open>end\<close>; \<open>None\<close>
  for a line of none of the seven forms.
\<close>

datatype form = Opens opener | Simple stmt | Ends

definition line_form :: "string \<Rightarrow> form option" where
  "line_form line =
     (case match_def line of
        Some (name, arg) \<Rightarrow> Some (Opens (ODef name arg))
      | None \<Rightarrow>
     (case match_kw ''if'' line of
        Some cond \<Rightarrow> Some (Opens (OIf cond))
      | None \<Rightarrow>
     (case match_for line of
        Some (var, f, t) \<Rightarrow> Some (Opens (OFor var f t))
      | None \<Rightarrow>
     (case match_kw ''return'' line of
        Some e \<Rightarrow> Some (Simple (Return e))
      | None \<Rightarrow>
     (case match_kw ''print'' line of
        Some e \<Rightarrow> Some (Simple (Print e))
      | None \<Rightarrow>
     (case match_assign line of
        Some (var, e) \<Rightarrow> Some (Simple (Assign var e))
      | None \<Rightarrow>
     (if line = ''end'' then Some Ends else None)))))))"

definition recognised :: "string \<Rightarrow> bool" where
  "recognised line = (line_form line \<noteq> None)"

text \<open>
  \<open>stack_lasts d ls\<close>: with \<open>d\<close> blocks open, the list \<^verbatim>\<open>stack\<close> is not empty when
  any of the lines \<open>ls\<close> is read. An \<^verbatim>\<open>end\<close> with no block open pops the list
  \<^verbatim>\<open>ast\<close> itself, which is harmless only on the last line.
\<close>

fun stack_lasts :: "nat \<Rightarrow> string list \<Rightarrow> bool" where
  "stack_lasts d [] = True"
| "stack_lasts d (l # ls) =
     (case line_form l of
        Some (Opens h) \<Rightarrow> stack_lasts (Suc d) ls
      | Some Ends \<Rightarrow> (case d of 0 \<Rightarrow> ls = [] | Suc d' \<Rightarrow> stack_lasts d' ls)
      | _ \<Rightarrow> stack_lasts d ls)"

text \<open>The function names a line adds to the global set.\<close>

fun declares :: "opener \<Rightarrow> pstate \<Rightarrow> pstate" where
  "declares (ODef name arg) s = s\<lparr>function_names := insert name (function_names s)\<rparr>"
| "declares h s = s"

lemma parse_line_form:
  "parse_line line s =
     (case line_form line of
        None \<Rightarrow> Inl (SyntaxError (''Unknown line: '' @ line))
      | Some (Opens h) \<Rightarrow> open_block h (declares h s)
      | Some (Simple st) \<Rightarrow> append_node st s
      | Some Ends \<Rightarrow> pop_block s)"
proof (cases "match_def line")
  case (Some p)
  then show ?thesis
    by (cases p) (simp add: parse_line_def line_form_def)
next
  case no_def: None
  show ?thesis
  proof (cases "match_kw ''if'' line")
    case (Some cond)
    with no_def show ?thesis
      by (simp add: parse_line_def line_form_def)
  next
    case no_if: None
    show ?thesis
    proof (cases "match_for line")
      case (Some p)
      then obtain var f t where "match_for line = Some (var, f, t)"
        by (cases p) auto
      with no_def no_if show ?thesis
        by (simp add: parse_line_def line_form_def)
    next
      case no_for: None
      show ?thesis
      proof (cases "match_kw ''return'' line")
        case (Some e)
        with no_def no_if no_for show ?thesis
          by (simp add: parse_line_def line_form_def)
      next
        case no_return: None
        show ?thesis
        proof (cases "match_kw ''print'' line")
          case (Some e)
          with no_def no_if no_for no_return show ?thesis
            by (simp add: parse_line_def line_form_def)
        next
          case no_print: None
          show ?thesis
          proof (cases "match_assign line")
            case (Some p)
            with no_def no_if no_for no_return no_print show ?thesis
              by (cases p) (simp add: parse_line_def line_form_def)
          next
            case None
            with no_def no_if no_for no_return no_print show ?thesis
              by (simp add: parse_line_def line_form_def)
          qed
        qed
      qed
    qed
  qed
qed

lemma open_block_live:
  assumes "\<not> popped s"
  shows "\<exists>s'. open_block h (declares h s) = Inr s' \<and> \<not> popped s' \<and>
           length (opened s') = Suc (length (opened s))"
  using assms by (cases h) (simp_all add: open_block_def)

lemma append_node_live:
  assumes "\<not> popped s"
  shows "\<exists>s'. append_node st s = Inr s' \<and> \<not> popped s' \<and> length (opened s') = length (opened s)"
  using assms by (auto simp: append_node_def split: list.split)

lemma pop_block_live:
  assumes "\<not> popped s"
  shows "\<exists>s'. pop_block s = Inr s' \<and> popped s' = (opened s = []) \<and>
           length (opened s') = length (opened s) - 1"
proof (cases "opened s")
  case Nil
  with assms show ?thesis by (simp add: pop_block_def)
next
  case (Cons f fs)
  with assms show ?thesis
    by (cases f; cases fs) (auto simp: pop_block_def)
qed

lemma parse_line_popped:
  assumes "popped s" and "line_form line = Some f"
  shows "\<exists>m. parse_line line s = Inl (IndexError m)"
proof (cases f)
  case (Opens h)
  with assms show ?thesis
    by (cases h) (simp_all add: parse_line_form open_block_def index_range_def)
next
  case (Simple st)
  with assms show ?thesis
    by (simp add: parse_line_form append_node_def index_range_def)
next
  case Ends
  with assms show ?thesis
    by (simp add: parse_line_form pop_block_def pop_empty_def)
qed

text \<open>Once \<^verbatim>\<open>ast\<close> has been popped, only the end of the lines is read without error.\<close>

lemma parse_lines_popped:
  assumes "popped s"
  shows "(\<exists>s'. parse_lines ls s = Inr s') = (ls = [])"
proof (cases ls)
  case Nil
  then show ?thesis by simp
next
  case (Cons l ls')
  show ?thesis
  proof (cases "line_form l")
    case None
    with Cons show ?thesis by (simp add: parse_line_form)
  next
    case (Some f)
    with assms obtain m where "parse_line l s = Inl (IndexError m)"
      using parse_line_popped by blast
    with Cons show ?thesis by simp
  qed
qed

lemma parse_lines_live:
  assumes "\<not> popped s"
  shows "(\<exists>s'. parse_lines ls s = Inr s') =
         (list_all recognised ls \<and> stack_lasts (length (opened s)) ls)"
  using assms
proof (induction ls arbitrary: s)
  case Nil
  show ?case by simp
next
  case (Cons l ls)
  show ?case
  proof (cases "line_form l")
    case None
    then show ?thesis by (simp add: parse_line_form recognised_def)
  next
    case (Some f)
    show ?thesis
    proof (cases f)
      case (Opens h)
      from Cons.prems obtain s' where s': "open_block h (declares h s) = Inr s'"
        "\<not> popped s'" "length (opened s') = Suc (length (opened s))"
        using open_block_live by blast
      with Some Opens Cons.IH [of s'] show ?thesis
        by (simp add: parse_line_form recognised_def)
    next
      case (Simple st)
      from Cons.prems obtain s' where s': "append_node st s = Inr s'"
        "\<not> popped s'" "length (opened s') = length (opened s)"
        using append_node_live by blast
      with Some Simple Cons.IH [of s'] show ?thesis
        by (simp add: parse_line_form recognised_def)
    next
      case Ends
      from Cons.prems obtain s' where s': "pop_block s = Inr s'"
        "popped s' = (opened s = [])" "length (opened s') = length (opened s) - 1"
        using pop_block_live by blast
      show ?thesis
      proof (cases "opened s")
        case Nil
        with s' have "popped s'" by simp
        then have "(\<exists>t. parse_lines ls s' = Inr t) = (ls = [])"
          by (rule parse_lines_popped)
        with Some Ends s' Nil show ?thesis
          by (auto simp: parse_line_form recognised_def)
      next
        case (Cons a as)
        with s' have "\<not> popped s'" and "length (opened s') = length as"
          by simp_all
        with Some Ends s' Cons Cons.IH [of s'] show ?thesis
          by (simp add: parse_line_form recognised_def)
      qed
    qed
  qed
qed


lemma parse_line_SyntaxError:
  assumes "parse_line l s = Inl (SyntaxError m)"
  shows "line_form l = None \<and> m = ''Unknown line: '' @ l"
proof (cases "line_form l")
  case None
  with assms show ?thesis by (simp add: parse_line_form)
next
  case (Some f)
  show ?thesis
  proof (cases "popped s")
    case True
    with Some obtain m' where "parse_line l s = Inl (IndexError m')"
      using parse_line_popped by blast
    with assms show ?thesis by simp
  next
    case False
    have "\<exists>s'. parse_line l s = Inr s'"
    proof (cases f)
      case (Opens h)
      with Some open_block_live [OF False, of h] show ?thesis
        by (auto simp: parse_line_form)
    next
      case (Simple st)
      with Some append_node_live [OF False, of st] show ?thesis
        by (auto simp: parse_line_form)
    next
      case Ends
      with Some pop_block_live [OF False] show ?thesis
        by (auto simp: parse_line_form)
    qed
    with assms show ?thesis by auto
  qed
qed

lemma parse_lines_SyntaxError:
  assumes "parse_lines ls s = Inl (SyntaxError m)"
  shows "\<exists>l \<in> set ls. \<not> recognised l \<and> m = ''Unknown line: '' @ l"
  using assms
proof (induction ls arbitrary: s)
  case Nil
  then show ?case by simp
next
  case (Cons l ls)
  show ?case
  proof (cases "parse_line l s")
    case (Inl e)
    with Cons.prems have "parse_line l s = Inl (SyntaxError m)"
      by simp
    then have "line_form l = None \<and> m = ''Unknown line: '' @ l"
      by (rule parse_line_SyntaxError)
    then show ?thesis by (simp add: recognised_def)
  next
    case (Inr s')
    with Cons.prems have "parse_lines ls s' = Inl (SyntaxError m)"
      by simp
    then have "\<exists>l \<in> set ls. \<not> recognised l \<and> m = ''Unknown line: '' @ l"
      by (rule Cons.IH)
    then show ?thesis by auto
  qed
qed

text \<open>
  C10, as stated, fails. Each of the two lines below has one of the seven forms and the
  \<^verbatim>\<open>if\<close> is never closed, yet \<^verbatim>\<open>parse\<close> raises, and on a line that matches: the
  \<^verbatim>\<open>end\<close> pops the list \<^verbatim>\<open>ast\<close> off the stack, and the next line finds the stack
  empty (\<^verbatim>\<open>IndexError\<close>).
\<close>

theorem parse_unclosed_counterexample:
  "parse [''end'', ''if x''] {} = Inl index_range"
  by code_simp

text \<open>
  C10, amended. The parser does not enforce that blocks are closed: \<^verbatim>\<open>parse\<close> returns
  a tree exactly when every line has one of the seven forms and no line follows an
  \<^verbatim>\<open>end\<close> that is met with no block open. So an input whose blocks are never
  closed parses, and the block left open holds the statements that follow it. The
  exception \<^verbatim>\<open>SyntaxError\<close> is raised only on a line of none of the seven forms, and
  carries that line.
\<close>

theorem parse_block_closure:
  "(\<exists>ast fnames'. parse ls fnames = Inr (ast, fnames'))
     = (list_all recognised (source_lines ls) \<and> stack_lasts 0 (source_lines ls))
   \<and> (\<forall>m. parse ls fnames = Inl (SyntaxError m) \<longrightarrow>
          (\<exists>l \<in> set (source_lines ls). \<not> recognised l \<and> m = ''Unknown line: '' @ l))"
proof -
  let ?s = "\<lparr>root = [], opened = [], popped = False, function_names = fnames\<rparr>"
  have "(\<exists>s'. parse_lines (source_lines ls) ?s = Inr s')
      = (list_all recognised (source_lines ls) \<and> stack_lasts (length (opened ?s)) (source_lines ls))"
    by (rule parse_lines_live) simp
  moreover have "(\<exists>ast fnames'. parse ls fnames = Inr (ast, fnames'))
      = (\<exists>s'. parse_lines (source_lines ls) ?s = Inr s')"
    by (auto simp: parse_def split: sum.splits)
  moreover have "\<exists>l \<in> set (source_lines ls). \<not> recognised l \<and> m = ''Unknown line: '' @ l"
    if "parse ls fnames = Inl (SyntaxError m)" for m
  proof -
    from that have "parse_lines (source_lines ls) ?s = Inl (SyntaxError m)"
      by (auto simp: parse_def split: sum.splits)
    then show ?thesis by (rule parse_lines_SyntaxError)
  qed
  ultimately show ?thesis by simp
qed

lemma unclosed_example:
  "list_all recognised (source_lines [''def f n'', ''if n < 2'', ''print n''])"
  "stack_lasts 0 (source_lines [''def f n'', ''if n < 2'', ''print n''])"
  "parse [''def f n'', ''if n < 2'', ''print n''] {}
     = Inr ([Def ''f'' ''n'' [If ''n < 2'' [Print ''n'']]], {''f''})"
  by code_simp+

theorem parse_block_closure_witness:
  "(\<exists>ast fnames'. parse [''def f n'', ''if n < 2'', ''print n''] {} = Inr (ast, fnames'))
   \<and> parse [''def f n'', ''if n < 2'', ''print n''] {}
     = Inr ([Def ''f'' ''n'' [If ''n < 2'' [Print ''n'']]], {''f''})"
  using parse_block_closure [of "[''def f n'', ''if n < 2'', ''print n'']" "{}"]
  by (simp add: unclosed_example)

subsection \<open>Addresses beyond the memory\<close>





























end
